theory Spec2Isabelle
  imports Main "HOL-Library.Word"
begin

text \<open>
  The polling pipeline of the Outlook-Telegram notifier (\<^verbatim>\<open>main.go\<close>): the
  formatter (\<^verbatim>\<open>formatMessage\<close>, \<^verbatim>\<open>truncateByRunes\<close>), the delivery client
  (\<^verbatim>\<open>postJSON\<close>, \<^verbatim>\<open>sendTelegramMessage\<close>), the dedup cache (\<^verbatim>\<open>processEmail\<close>), the
  folder resolver (\<^verbatim>\<open>getFolder\<close>, \<^verbatim>\<open>findFolderRecursive\<close>) and the scheduler loop
  (\<^verbatim>\<open>mainLogic\<close>, \<^verbatim>\<open>safeGoNoLog\<close>, \<^verbatim>\<open>waitNextCheck\<close>). The mail provider and the
  network are parameters: what they answer is given, what the program does with the
  answers is modelled.
\<close>

section \<open>Strings, runes and panics\<close>

text \<open>
  A Go string is a byte sequence holding UTF-8. Every string that reaches the formatter
  is valid UTF-8 (the configuration comes from \<^verbatim>\<open>json.Unmarshal\<close>, the mail fields from
  the provider's UTF-16 strings), so a string is modelled by the sequence of its runes
  (Unicode code points): the conversion \<^verbatim>\<open>[]rune(text)\<close> is the identity of the model,
  \<^verbatim>\<open>len([]rune(text))\<close> is \<open>length\<close>, and a byte offset returned by the regexp
  package, which always lies on a rune boundary, is the number of runes before it.
\<close>

type_synonym rune = nat
type_synonym gostring = "rune list"

definition asc :: "string \<Rightarrow> gostring" where
  "asc s = map of_char s"

text \<open>A run-time panic of the Go program is a value of the model.\<close>

datatype panic
  = SliceBoundsOutOfRange  \<comment> \<open>\<^verbatim>\<open>runes[:n]\<close> with \<open>n < 0\<close>\<close>
  | OlePanic               \<comment> \<open>\<^verbatim>\<open>oleutil.MustGetProperty\<close> on a failing provider call\<close>

section \<open>truncateByRunes\<close>

text \<open>
  \<^verbatim>\<open>
  func truncateByRunes(text string, maxRunes int) string {
      runes := []rune(text)
      if len(runes) <= maxRunes { return text }
      return string(runes[:maxRunes]) + "..."
  }
  \<close>
  When the test fails and \<open>maxRunes\<close> is negative, the slice expression panics.
\<close>

definition truncateByRunes :: "gostring \<Rightarrow> int \<Rightarrow> panic + gostring" where
  "truncateByRunes text maxRunes =
     (if int (length text) \<le> maxRunes then Inr text
      else if maxRunes < 0 then Inl SliceBoundsOutOfRange
      else Inr (take (nat maxRunes) text @ asc ''...''))"

section \<open>Library functions used by the formatter\<close>

text \<open>
  \<^verbatim>\<open>html.EscapeString\<close> of the Go standard library replaces exactly the five characters
  \<^verbatim>\<open>& ' < > "\<close> by \<^verbatim>\<open>&amp; &#39; &lt; &gt; &#34;\<close> and copies every other rune.
\<close>

definition escapeRune :: "rune \<Rightarrow> gostring" where
  "escapeRune r =
     (if r = 38 then asc ''&amp;''
      else if r = 39 then asc ''&#39;''
      else if r = 60 then asc ''&lt;''
      else if r = 62 then asc ''&gt;''
      else if r = 34 then asc ''&#34;''
      else [r])"

definition EscapeString :: "gostring \<Rightarrow> gostring" where
  "EscapeString s = concat (map escapeRune s)"

text \<open>
  \<^verbatim>\<open>regexp.MustCompile("(?i)" + regexp.QuoteMeta(cutString))\<close> is the literal
  \<open>cutString\<close> matched case-insensitively: a rune of the text matches a rune of the
  literal when both lie in the same orbit of Unicode simple case folding
  (\<^verbatim>\<open>unicode.SimpleFold\<close>). The folding table belongs to the Go runtime; it is the
  parameter \<open>sf\<close>, which sends a rune to the representative of its orbit.
  \<^verbatim>\<open>FindStringIndex\<close> returns the leftmost match, \<open>None\<close> standing for \<^verbatim>\<open>nil\<close>.
\<close>

type_synonym folding = "rune \<Rightarrow> rune"

fun matchAt :: "folding \<Rightarrow> gostring \<Rightarrow> gostring \<Rightarrow> bool" where
  "matchAt sf [] text = True"
| "matchAt sf (p # ps) [] = False"
| "matchAt sf (p # ps) (c # cs) = (sf p = sf c \<and> matchAt sf ps cs)"

fun FindStringIndex :: "folding \<Rightarrow> gostring \<Rightarrow> gostring \<Rightarrow> nat option" where
  "FindStringIndex sf pat [] = (if matchAt sf pat [] then Some 0 else None)"
| "FindStringIndex sf pat (c # cs) =
     (if matchAt sf pat (c # cs) then Some 0
      else map_option Suc (FindStringIndex sf pat cs))"

text \<open>The folding of the ASCII letters, for concrete runs.\<close>

definition asciiFold :: folding where
  "asciiFold r = (if 65 \<le> r \<and> r \<le> 90 then r + 32 else r)"

text \<open>
  The literal \<open>pat\<close> occurs in \<open>text\<close> from position \<open>i\<close> on, up to case folding.
\<close>

definition occursAt :: "folding \<Rightarrow> gostring \<Rightarrow> gostring \<Rightarrow> nat \<Rightarrow> bool" where
  "occursAt sf pat text i =
     (i + length pat \<le> length text
      \<and> map sf (take (length pat) (drop i text)) = map sf pat)"

section \<open>Configuration\<close>

text \<open>
  The fields of \<^verbatim>\<open>Config\<close> and \<^verbatim>\<open>Folder\<close> that the polling pipeline reads. A Go
  \<^verbatim>\<open>int\<close> field is an \<open>int\<close>; \<^verbatim>\<open>validateConfig\<close> bounds both of them far below the
  machine range.
\<close>

record TelegramCfg =
  BotToken :: gostring
  DefaultChatID :: gostring
  UseEmojis :: bool

record Folder =
  Name :: gostring
  ChatID :: gostring
  MessageLength :: int

record Config =
  Telegram :: TelegramCfg
  CheckIntervalSeconds :: int
  CutText :: gostring
  Folders :: "Folder list"

section \<open>formatMessage\<close>

text \<open>The three header lines (the \<^verbatim>\<open>UseEmojis\<close> branch and the plain one).\<close>

definition headerLines :: "bool \<Rightarrow> gostring \<Rightarrow> gostring \<Rightarrow> gostring \<Rightarrow> gostring" where
  "headerLines useEmojis folder sender subject =
     (if useEmojis then
        ([128229] @ asc '' <b>'' @ [1055, 1072, 1087, 1082, 1072] @ asc '':</b> '' @ folder @ [10])
        @ ([128100] @ asc '' <b>''
            @ [1054, 1090, 1087, 1088, 1072, 1074, 1080, 1090, 1077, 1083, 1100]
            @ asc '':</b> '' @ sender @ [10])
        @ ([128231] @ asc '' <b>'' @ [1058, 1077, 1084, 1072] @ asc '':</b> '' @ subject @ [10])
      else
        (asc ''<b>'' @ [1055, 1072, 1087, 1082, 1072] @ asc '':</b> '' @ folder @ [10])
        @ (asc ''<b>'' @ [1054, 1090, 1087, 1088, 1072, 1074, 1080, 1090, 1077, 1083, 1100]
            @ asc '':</b> '' @ sender @ [10])
        @ (asc ''<b>'' @ [1058, 1077, 1084, 1072] @ asc '':</b> '' @ subject @ [10]))"

text \<open>The header as written to the builder: the three fields escaped first.\<close>

definition messageHeader :: "Config \<Rightarrow> gostring \<Rightarrow> gostring \<Rightarrow> gostring \<Rightarrow> gostring" where
  "messageHeader cfg folder sender subject =
     headerLines (UseEmojis (Telegram cfg))
       (EscapeString folder) (EscapeString sender) (EscapeString subject)"

text \<open>The literal that opens the body section, \<^verbatim>\<open><i>...:</i>\<close> and a newline.\<close>

definition bodyLabel :: gostring where
  "bodyLabel =
     asc ''<i>'' @ [1057, 1086, 1086, 1073, 1097, 1077, 1085, 1080, 1077] @ asc '':</i>'' @ [10]"

text \<open>
  What \<^verbatim>\<open>if maxLength != 0 { ... }\<close> writes to the builder: nothing when
  \<open>maxLength = 0\<close>, else the label and the escaped body, truncated when \<open>maxLength > 0\<close>.
\<close>

definition bodySection :: "gostring \<Rightarrow> int \<Rightarrow> panic + gostring" where
  "bodySection body maxLength =
     (if maxLength \<noteq> 0 then
        (case (if maxLength > 0 then truncateByRunes (EscapeString body) maxLength
               else Inr (EscapeString body)) of
           Inl p \<Rightarrow> Inl p
         | Inr body' \<Rightarrow> Inr (bodyLabel @ body'))
      else Inr [])"

text \<open>The builder's content before the cut marker is looked for: header and body.\<close>

definition composeMessage ::
    "Config \<Rightarrow> gostring \<Rightarrow> gostring \<Rightarrow> gostring \<Rightarrow> gostring \<Rightarrow> int \<Rightarrow> panic + gostring" where
  "composeMessage cfg folder sender subject body maxLength =
     (case bodySection body maxLength of
        Inl p \<Rightarrow> Inl p
      | Inr section \<Rightarrow> Inr (messageHeader cfg folder sender subject @ section))"

text \<open>
  \<^verbatim>\<open>if len(cutString) != 0 { ... fullMessage = fullMessage[:index[0]] ... }\<close>
\<close>

definition cutAtMarker :: "folding \<Rightarrow> gostring \<Rightarrow> gostring \<Rightarrow> gostring" where
  "cutAtMarker sf cutString fullMessage =
     (if length cutString \<noteq> 0 then
        (case FindStringIndex sf cutString fullMessage of
           Some i \<Rightarrow> take i fullMessage
         | None \<Rightarrow> fullMessage)
      else fullMessage)"

definition formatMessage ::
    "folding \<Rightarrow> Config \<Rightarrow> gostring \<Rightarrow> gostring \<Rightarrow> gostring \<Rightarrow> gostring \<Rightarrow> int
      \<Rightarrow> panic + gostring" where
  "formatMessage sf cfg folder sender subject body maxLength =
     (case composeMessage cfg folder sender subject body maxLength of
        Inl p \<Rightarrow> Inl p
      | Inr msg \<Rightarrow> truncateByRunes (cutAtMarker sf (CutText cfg) msg) 4000)"

section \<open>Delivery: postJSON and sendTelegramMessage\<close>

text \<open>
  The outside world of \<^verbatim>\<open>postJSON\<close>: what \<^verbatim>\<open>json.Marshal\<close>, \<^verbatim>\<open>http.NewRequest\<close>,
  \<^verbatim>\<open>client.Do\<close> and \<^verbatim>\<open>io.ReadAll(resp.Body)\<close> answer. An error is \<open>Inl\<close> with its
  text. Every \<^verbatim>\<open>if err != nil\<close> of the source is a branch of the model.

  \<open>clientDo\<close> is one call of \<^verbatim>\<open>client.Do\<close>. The client is
  \<^verbatim>\<open>&http.Client{Timeout: httpTimeout}\<close>, with no \<^verbatim>\<open>CheckRedirect\<close>: the call follows
  redirects by itself, so what it returns is the last response of the exchange, and the
  requests on the wire may be more than the one request handed to it.
\<close>

type_synonym payload = "(gostring \<times> gostring) list"

record request =
  reqMethod :: gostring
  reqUrl :: gostring
  reqContentType :: gostring
  reqBody :: gostring

record response =
  StatusCode :: int
  RespBody :: "gostring + gostring"  \<comment> \<open>\<^verbatim>\<open>io.ReadAll\<close>: a read error, or the bytes\<close>

record network =
  jsonMarshal :: "payload \<Rightarrow> gostring + gostring"
  newRequestError :: "gostring \<Rightarrow> gostring option"  \<comment> \<open>the URL does not parse\<close>
  clientDo :: "request \<Rightarrow> gostring + response"

text \<open>The errors \<^verbatim>\<open>postJSON\<close> builds with \<^verbatim>\<open>fmt.Errorf\<close>, with what each message carries.\<close>

datatype sendError
  = MarshalFailed gostring
  | RequestCreationFailed gostring
  | RequestFailed gostring
  | ReadFailed gostring
  | BadStatus int gostring

text \<open>
  \<^verbatim>\<open>postJSON\<close> returns the body or an error; the second component lists the calls of
  \<^verbatim>\<open>client.Do\<close> the program makes, each with the request handed to it, in order.
\<close>

definition postJSON ::
    "network \<Rightarrow> gostring \<Rightarrow> payload \<Rightarrow> (sendError + gostring) \<times> request list" where
  "postJSON net url data =
     (case jsonMarshal net data of
        Inl e \<Rightarrow> (Inl (MarshalFailed e), [])
      | Inr jsonData \<Rightarrow>
          (case newRequestError net url of
             Some e \<Rightarrow> (Inl (RequestCreationFailed e), [])
           | None \<Rightarrow>
               (let req = \<lparr>reqMethod = asc ''POST'', reqUrl = url,
                           reqContentType = asc ''application/json'', reqBody = jsonData\<rparr>
                in case clientDo net req of
                     Inl e \<Rightarrow> (Inl (RequestFailed e), [req])
                   | Inr resp \<Rightarrow>
                       (case RespBody resp of
                          Inl e \<Rightarrow> (Inl (ReadFailed e), [req])
                        | Inr body \<Rightarrow>
                            if StatusCode resp \<noteq> 200
                            then (Inl (BadStatus (StatusCode resp) body), [req])
                            else (Inr body, [req])))))"

definition sendTelegramMessage ::
    "network \<Rightarrow> Config \<Rightarrow> gostring \<Rightarrow> gostring \<Rightarrow> sendError option \<times> request list" where
  "sendTelegramMessage net cfg text chatID =
     (let url = asc ''https://api.telegram.org/bot'' @ BotToken (Telegram cfg)
                  @ asc ''/sendMessage''
      in case postJSON net url
                [(asc ''chat_id'', chatID), (asc ''text'', text),
                 (asc ''parse_mode'', asc ''HTML'')] of
           (Inl err, reqs) \<Rightarrow> (Some err, reqs)
         | (Inr body, reqs) \<Rightarrow> (None, reqs))"

section \<open>The dedup cache and processEmail\<close>

text \<open>
  \<^verbatim>\<open>processedEmails\<close> is a Go \<^verbatim>\<open>map[string]bool\<close>: reading an absent key gives
  \<^verbatim>\<open>false\<close>. The state also keeps the delivery attempts made so far (identity token,
  text, chat, and the error \<^verbatim>\<open>sendTelegramMessage\<close> returned, \<open>None\<close> for \<^verbatim>\<open>nil\<close>).
\<close>

type_synonym attempt = "gostring \<times> gostring \<times> gostring \<times> sendError option"

record pipeline =
  processedEmails :: "gostring \<rightharpoonup> bool"
  attempts :: "attempt list"

definition isProcessed :: "(gostring \<rightharpoonup> bool) \<Rightarrow> gostring \<Rightarrow> bool" where
  "isProcessed m entryID = (case m entryID of None \<Rightarrow> False | Some b \<Rightarrow> b)"

text \<open>
  A mail item as the provider serves it. \<^verbatim>\<open>oleutil.GetProperty(item, "EntryID")\<close>
  may return an error (\<open>None\<close>); the other fields are read with
  \<^verbatim>\<open>oleutil.MustGetProperty\<close>, which panics where the provider fails (\<open>None\<close>).
\<close>

record MailItem =
  EntryID :: "gostring option"
  SenderName :: "gostring option"
  SenderEmailAddress :: "gostring option"
  Subject :: "gostring option"
  Body :: "gostring option"

text \<open>
  \<^verbatim>\<open>for _, f := range config.Folders { if f.Name == folderName { folderConfig = f; break } }\<close>
  over the zero value of \<^verbatim>\<open>Folder\<close>.
\<close>

definition lookupFolderConfig :: "Config \<Rightarrow> gostring \<Rightarrow> Folder" where
  "lookupFolderConfig cfg folderName =
     (case List.find (\<lambda>f. Name f = folderName) (Folders cfg) of
        Some f \<Rightarrow> f
      | None \<Rightarrow> \<lparr>Name = [], ChatID = [], MessageLength = 0\<rparr>)"

text \<open>
  The first part of \<^verbatim>\<open>processEmail\<close>, up to the call of \<^verbatim>\<open>sendTelegramMessage\<close>:
  an early return, a panic, or the identity token, message and chat of the delivery to
  attempt, with the cache as it stands at that point.
\<close>

datatype prepared
  = Skip
  | Crash panic
  | Ready gostring gostring gostring

definition prepareEmail ::
    "folding \<Rightarrow> Config \<Rightarrow> MailItem \<Rightarrow> gostring \<Rightarrow> pipeline \<Rightarrow> prepared \<times> pipeline" where
  "prepareEmail sf cfg item folderName s =
     (case EntryID item of
        None \<Rightarrow> (Skip, s)
      | Some entryID \<Rightarrow>
          if isProcessed (processedEmails s) entryID then (Skip, s)
          else
            (let s1 = s\<lparr>processedEmails := (processedEmails s)(entryID \<mapsto> True)\<rparr> in
             case SenderName item of
               None \<Rightarrow> (Crash OlePanic, s1)
             | Some senderName \<Rightarrow>
             (case SenderEmailAddress item of
               None \<Rightarrow> (Crash OlePanic, s1)
             | Some senderEmail \<Rightarrow>
             (let sender = (if senderName \<noteq> [] \<and> senderName \<noteq> senderEmail
                            then senderName @ asc '' <'' @ senderEmail @ asc ''>''
                            else senderEmail) in
              case Subject item of
                None \<Rightarrow> (Crash OlePanic, s1)
              | Some subject \<Rightarrow>
              (case Body item of
                None \<Rightarrow> (Crash OlePanic, s1)
              | Some body \<Rightarrow>
              (let folderConfig = lookupFolderConfig cfg folderName in
               case formatMessage sf cfg folderName sender subject body
                      (MessageLength folderConfig) of
                 Inl p \<Rightarrow> (Crash p, s1)
               | Inr message \<Rightarrow>
                   (let chatID = (if ChatID folderConfig = []
                                  then DefaultChatID (Telegram cfg)
                                  else ChatID folderConfig)
                    in (Ready entryID message chatID, s1))))))))"

text \<open>
  The second part: the delivery attempt and, where it failed,
  \<^verbatim>\<open>processedEmails[entryID] = false\<close>.
\<close>

definition deliverEmail ::
    "network \<Rightarrow> Config \<Rightarrow> gostring \<Rightarrow> gostring \<Rightarrow> gostring \<Rightarrow> pipeline \<Rightarrow> pipeline" where
  "deliverEmail net cfg entryID message chatID s =
     (let err = fst (sendTelegramMessage net cfg message chatID);
          s2 = s\<lparr>attempts := attempts s @ [(entryID, message, chatID, err)]\<rparr>
      in if err \<noteq> None
         then s2\<lparr>processedEmails := (processedEmails s2)(entryID \<mapsto> False)\<rparr>
         else s2)"

datatype ending = Returned | Panicked panic

definition processEmail ::
    "network \<Rightarrow> folding \<Rightarrow> Config \<Rightarrow> MailItem \<Rightarrow> gostring \<Rightarrow> pipeline \<Rightarrow> ending \<times> pipeline" where
  "processEmail net sf cfg item folderName s =
     (case prepareEmail sf cfg item folderName s of
        (Skip, s1) \<Rightarrow> (Returned, s1)
      | (Crash p, s1) \<Rightarrow> (Panicked p, s1)
      | (Ready entryID message chatID, s1) \<Rightarrow>
          (Returned, deliverEmail net cfg entryID message chatID s1))"

text \<open>
  The item loop of \<^verbatim>\<open>processFolders\<close> for one folder; a panic leaves the loop.
\<close>

fun processItems ::
    "network \<Rightarrow> folding \<Rightarrow> Config \<Rightarrow> MailItem list \<Rightarrow> gostring \<Rightarrow> pipeline \<Rightarrow> ending \<times> pipeline" where
  "processItems net sf cfg [] folderName s = (Returned, s)"
| "processItems net sf cfg (item # items) folderName s =
     (case processEmail net sf cfg item folderName s of
        (Panicked p, s1) \<Rightarrow> (Panicked p, s1)
      | (Returned, s1) \<Rightarrow> processItems net sf cfg items folderName s1)"

section \<open>Folder resolution\<close>

text \<open>
  The provider's folder tree: a folder has a name and a \<^verbatim>\<open>Folders\<close> collection, served
  in the provider's order. The namespace has the top-level \<^verbatim>\<open>Folders\<close> collection and
  the well-known folders of \<^verbatim>\<open>GetDefaultFolder\<close>.
\<close>

datatype MAPIFolder = MAPIFolder (mapiName: gostring) (subFolders: "MAPIFolder list")

record Namespace =
  nsFolders :: "MAPIFolder list"
  GetDefaultFolder :: "int \<Rightarrow> MAPIFolder"

datatype folderError = FolderNotFound gostring

text \<open>
  \<^verbatim>\<open>findFolderRecursive(parent, target)\<close>, given the \<^verbatim>\<open>Folders\<close> collection of
  \<open>parent\<close>: the loop over \<^verbatim>\<open>i := 1 .. count\<close> is the recursion over the list, the
  recursive call goes to the collection of the folder at hand. The second component lists
  the folders fetched with \<^verbatim>\<open>Item(i)\<close>, in the order of the calls.
\<close>

fun findFolderRecursive ::
    "MAPIFolder list \<Rightarrow> gostring \<Rightarrow> (folderError + MAPIFolder) \<times> MAPIFolder list" where
  "findFolderRecursive [] target = (Inl (FolderNotFound target), [])"
| "findFolderRecursive (MAPIFolder currentName children # rest) target =
     (if currentName = target
      then (Inr (MAPIFolder currentName children), [MAPIFolder currentName children])
      else
        (case findFolderRecursive children target of
           (Inr subFolder, seen) \<Rightarrow> (Inr subFolder, MAPIFolder currentName children # seen)
         | (Inl err, seen) \<Rightarrow>
             (case findFolderRecursive rest target of
                (result, seen') \<Rightarrow> (result, MAPIFolder currentName children # seen @ seen'))))"

text \<open>The inbox name of \<^verbatim>\<open>getFolder\<close>, eight Cyrillic letters.\<close>

definition inboxName :: gostring where
  "inboxName = [1042, 1093, 1086, 1076, 1103, 1097, 1080, 1077]"

definition getFolder ::
    "Namespace \<Rightarrow> gostring \<Rightarrow> (folderError + MAPIFolder) \<times> MAPIFolder list" where
  "getFolder ns name =
     (if name = inboxName then (Inr (GetDefaultFolder ns 6), [])
      else findFolderRecursive (nsFolders ns) name)"

text \<open>
  The search as the specification words it: at each level the names of all the children
  are compared first, and only when none matches is each child searched in turn.
\<close>

fun levelFirstSearch :: "MAPIFolder list \<Rightarrow> gostring \<Rightarrow> folderError + MAPIFolder"
  and searchEach :: "MAPIFolder list \<Rightarrow> gostring \<Rightarrow> folderError + MAPIFolder" where
  "levelFirstSearch folders target =
     (case List.find (\<lambda>f. mapiName f = target) folders of
        Some f \<Rightarrow> Inr f
      | None \<Rightarrow> searchEach folders target)"
| "searchEach [] target = Inl (FolderNotFound target)"
| "searchEach (MAPIFolder n children # rest) target =
     (case levelFirstSearch children target of
        Inr f \<Rightarrow> Inr f
      | Inl err \<Rightarrow> searchEach rest target)"

text \<open>All folders below a collection, in pre-order.\<close>

fun preorder :: "MAPIFolder list \<Rightarrow> MAPIFolder list" where
  "preorder [] = []"
| "preorder (MAPIFolder n children # rest) =
     MAPIFolder n children # preorder children @ preorder rest"

section \<open>The scheduler loop of mainLogic\<close>

text \<open>
  \<^verbatim>\<open>time.Sleep(time.Duration(interval) * time.Second)\<close>: the product is an
  \<^verbatim>\<open>int64\<close> count of nanoseconds and wraps around. \<open>waitNextCheck\<close> is the duration
  handed to \<^verbatim>\<open>time.Sleep\<close>.
\<close>

definition waitNextCheck :: "Config \<Rightarrow> int" where
  "waitNextCheck cfg =
     (let interval = (if CheckIntervalSeconds cfg \<le> 0 then 10 else CheckIntervalSeconds cfg)
      in sint ((word_of_int interval :: 64 word) * 1000000000))"

text \<open>
  The loop of \<^verbatim>\<open>mainLogic\<close> and the tasks it starts with \<^verbatim>\<open>safeGoNoLog\<close>, as a
  transition system over interleavings. The scheduler is at one of three places:
  the send \<^verbatim>\<open>semaphore <- struct{}{}\<close>, the call of \<^verbatim>\<open>safeGoNoLog\<close>, or the call of
  \<^verbatim>\<open>waitNextCheck\<close>. A task runs its body until that returns or panics; then its
  deferred \<^verbatim>\<open><-semaphore\<close> runs; a panicking task then reaches the deferred function of
  \<^verbatim>\<open>safeGoNoLog\<close>, whose \<^verbatim>\<open>recover()\<close> ends the panic. \<open>semaphore\<close> is the number of
  values in the channel, whose capacity is 1.
\<close>

datatype schedulerAt = AtAcquire | AtSafeGo | AtWaitNextCheck

datatype bodyEnd = Normally | Panicking

datatype task = InBody | InDeferred bodyEnd | InRecover | Finished

datatype event
  = Acquire
  | Spawn
  | Sleep
  | BodyReturns nat
  | BodyPanics nat
  | Release nat
  | Recover nat

record scheduler =
  semaphore :: nat
  at :: schedulerAt
  tasks :: "task list"
  slept :: "int list"

definition initial :: scheduler where
  "initial = \<lparr>semaphore = 0, at = AtAcquire, tasks = [], slept = []\<rparr>"

fun step :: "Config \<Rightarrow> event \<Rightarrow> scheduler \<Rightarrow> scheduler option" where
  "step cfg Acquire s =
     (if at s = AtAcquire \<and> semaphore s < 1
      then Some (s\<lparr>semaphore := semaphore s + 1, at := AtSafeGo\<rparr>) else None)"
| "step cfg Spawn s =
     (if at s = AtSafeGo
      then Some (s\<lparr>tasks := tasks s @ [InBody], at := AtWaitNextCheck\<rparr>) else None)"
| "step cfg Sleep s =
     (if at s = AtWaitNextCheck
      then Some (s\<lparr>slept := slept s @ [waitNextCheck cfg], at := AtAcquire\<rparr>) else None)"
| "step cfg (BodyReturns i) s =
     (if i < length (tasks s) \<and> tasks s ! i = InBody
      then Some (s\<lparr>tasks := (tasks s)[i := InDeferred Normally]\<rparr>) else None)"
| "step cfg (BodyPanics i) s =
     (if i < length (tasks s) \<and> tasks s ! i = InBody
      then Some (s\<lparr>tasks := (tasks s)[i := InDeferred Panicking]\<rparr>) else None)"
| "step cfg (Release i) s =
     (if i < length (tasks s) \<and> 0 < semaphore s then
        (case tasks s ! i of
           InDeferred Normally \<Rightarrow>
             Some (s\<lparr>semaphore := semaphore s - 1, tasks := (tasks s)[i := Finished]\<rparr>)
         | InDeferred Panicking \<Rightarrow>
             Some (s\<lparr>semaphore := semaphore s - 1, tasks := (tasks s)[i := InRecover]\<rparr>)
         | _ \<Rightarrow> None)
      else None)"
| "step cfg (Recover i) s =
     (if i < length (tasks s) \<and> tasks s ! i = InRecover
      then Some (s\<lparr>tasks := (tasks s)[i := Finished]\<rparr>) else None)"

fun run :: "Config \<Rightarrow> event list \<Rightarrow> scheduler \<Rightarrow> scheduler option" where
  "run cfg [] s = Some s"
| "run cfg (e # es) s = (case step cfg e s of None \<Rightarrow> None | Some s' \<Rightarrow> run cfg es s')"

text \<open>A task is in flight from its start until its deferred receive has run.\<close>

fun inFlight :: "task \<Rightarrow> bool" where
  "inFlight InBody = True"
| "inFlight (InDeferred e) = True"
| "inFlight InRecover = False"
| "inFlight Finished = False"

definition cyclesInFlight :: "scheduler \<Rightarrow> nat" where
  "cyclesInFlight s = length (filter inFlight (tasks s))"

section \<open>Vocabulary of the theorems\<close>

text \<open>
  Words for the claims about the cache. An identity has been delivered when some attempt
  for it returned \<^verbatim>\<open>nil\<close>; the cache is sound when it marks only such identities; an
  item is readable when none of its \<^verbatim>\<open>MustGetProperty\<close> reads panics.
\<close>

definition deliveredOnce :: "pipeline \<Rightarrow> gostring \<Rightarrow> bool" where
  "deliveredOnce s entryID =
     (\<exists>a \<in> set (attempts s). fst a = entryID \<and> snd (snd (snd a)) = None)"

definition cacheSound :: "pipeline \<Rightarrow> bool" where
  "cacheSound s = (\<forall>entryID. isProcessed (processedEmails s) entryID \<longrightarrow> deliveredOnce s entryID)"

definition readable :: "MailItem \<Rightarrow> bool" where
  "readable item =
     (SenderName item \<noteq> None \<and> SenderEmailAddress item \<noteq> None
      \<and> Subject item \<noteq> None \<and> Body item \<noteq> None)"

text \<open>
  Words for the delivery: the URL of the \<^verbatim>\<open>sendMessage\<close> endpoint that
  \<^verbatim>\<open>sendTelegramMessage\<close> builds, the payload it hands to \<^verbatim>\<open>postJSON\<close>, and the request
  \<^verbatim>\<open>postJSON\<close> builds from a URL and the marshalled payload.
\<close>

definition sendMessageURL :: "Config \<Rightarrow> gostring" where
  "sendMessageURL cfg =
     asc ''https://api.telegram.org/bot'' @ BotToken (Telegram cfg) @ asc ''/sendMessage''"

definition sendMessageData :: "gostring \<Rightarrow> gostring \<Rightarrow> payload" where
  "sendMessageData msg chatID =
     [(asc ''chat_id'', chatID), (asc ''text'', msg), (asc ''parse_mode'', asc ''HTML'')]"

definition postRequest :: "gostring \<Rightarrow> gostring \<Rightarrow> request" where
  "postRequest url jsonData =
     \<lparr>reqMethod = asc ''POST'', reqUrl = url,
      reqContentType = asc ''application/json'', reqBody = jsonData\<rparr>"

text \<open>
  The bookkeeping of the scheduler: the values in the channel are the slot the loop holds
  between its send and the start of the task, and one for each task in flight; the
  channel never holds more than one; and the loop has slept once for every task it
  started, but for the one it has just started.
\<close>

definition slotsAccounted :: "scheduler \<Rightarrow> bool" where
  "slotsAccounted s =
     (semaphore s = (if at s = AtSafeGo then 1 else 0) + cyclesInFlight s
      \<and> semaphore s \<le> 1
      \<and> length (slept s) + (if at s = AtWaitNextCheck then 1 else 0) = length (tasks s))"

section \<open>Concrete inputs\<close>

text \<open>A configuration with one folder rule and the cut marker \<^verbatim>\<open>--END--\<close>.\<close>

definition cfgCut :: Config where
  "cfgCut =
     \<lparr>Telegram = \<lparr>BotToken = asc ''1:a'', DefaultChatID = asc ''42'', UseEmojis = False\<rparr>,
      CheckIntervalSeconds = 5, CutText = asc ''--END--'',
      Folders = [\<lparr>Name = asc ''Invoices'', ChatID = [], MessageLength = 50\<rparr>]\<rparr>"

text \<open>The same with the cut marker \<^verbatim>\<open>abcd\<close>, and with none.\<close>

definition cfgABCD :: Config where
  "cfgABCD = cfgCut\<lparr>CutText := asc ''abcd''\<rparr>"

definition cfgPlain :: Config where
  "cfgPlain = cfgCut\<lparr>CutText := []\<rparr>"

text \<open>A body of six Cyrillic letters (twelve bytes of UTF-8).\<close>

definition privet :: gostring where
  "privet = [1055, 1088, 1080, 1074, 1077, 1090]"

text \<open>
  Networks: a marshaller that writes the pairs one after the other, and a server that
  answers every request with the given status and body; a server that cannot be reached;
  a server whose answer cannot be read.
\<close>

definition marshalPairs :: "payload \<Rightarrow> gostring + gostring" where
  "marshalPairs data = Inr (concat (map (\<lambda>(k, v). k @ asc ''='' @ v @ asc '';'') data))"

definition netAnswering :: "int \<Rightarrow> gostring \<Rightarrow> network" where
  "netAnswering code body =
     \<lparr>jsonMarshal = marshalPairs, newRequestError = (\<lambda>url. None),
      clientDo = (\<lambda>req. Inr \<lparr>StatusCode = code, RespBody = Inr body\<rparr>)\<rparr>"

definition netDown :: network where
  "netDown =
     \<lparr>jsonMarshal = marshalPairs, newRequestError = (\<lambda>url. None),
      clientDo = (\<lambda>req. Inl (asc ''timeout''))\<rparr>"

definition netUnreadable :: network where
  "netUnreadable =
     \<lparr>jsonMarshal = marshalPairs, newRequestError = (\<lambda>url. None),
      clientDo = (\<lambda>req. Inr \<lparr>StatusCode = 500, RespBody = Inl (asc ''reset'')\<rparr>)\<rparr>"

text \<open>
  A marshaller that fails, a URL that does not parse, and the payload of the message
  \<^verbatim>\<open>hello\<close> for the chat \<^verbatim>\<open>42\<close> as \<open>marshalPairs\<close> writes it.
\<close>

definition netNoMarshal :: network where
  "netNoMarshal =
     \<lparr>jsonMarshal = (\<lambda>data. Inl (asc ''unsupported'')), newRequestError = (\<lambda>url. None),
      clientDo = (\<lambda>req. Inl (asc ''timeout''))\<rparr>"

definition netBadURL :: network where
  "netBadURL =
     \<lparr>jsonMarshal = marshalPairs, newRequestError = (\<lambda>url. Some (asc ''invalid'')),
      clientDo = (\<lambda>req. Inl (asc ''timeout''))\<rparr>"

definition helloJSON :: gostring where
  "helloJSON = asc ''chat_id=42;text=hello;parse_mode=HTML;''"

text \<open>A mail item with every field readable, and the empty pipeline state.\<close>

definition mail1 :: MailItem where
  "mail1 =
     \<lparr>EntryID = Some (asc ''ID1''), SenderName = Some (asc ''Bob''),
      SenderEmailAddress = Some (asc ''b@x.org''), Subject = Some (asc ''Bill''),
      Body = Some (asc ''Pay'')\<rparr>"

definition fresh :: pipeline where
  "fresh = \<lparr>processedEmails = Map.empty, attempts = []\<rparr>"

text \<open>The message and the chat that \<open>mail1\<close> gives in the folder \<^verbatim>\<open>Invoices\<close>.\<close>

definition message1 :: gostring where
  "message1 =
     messageHeader cfgPlain (asc ''Invoices'') (asc ''Bob <b@x.org>'') (asc ''Bill'')
       @ bodyLabel @ asc ''Pay''"

text \<open>
  A mailbox: the top-level folder \<^verbatim>\<open>Archive\<close> holds a folder \<^verbatim>\<open>Reports\<close> (with a
  subfolder \<^verbatim>\<open>Old\<close>), and a second top-level folder is also called \<^verbatim>\<open>Reports\<close>.
\<close>

definition innerReports :: MAPIFolder where
  "innerReports = MAPIFolder (asc ''Reports'') [MAPIFolder (asc ''Old'') []]"

definition archive :: MAPIFolder where
  "archive = MAPIFolder (asc ''Archive'') [innerReports]"

definition topReports :: MAPIFolder where
  "topReports = MAPIFolder (asc ''Reports'') []"

definition mailbox :: Namespace where
  "mailbox = \<lparr>nsFolders = [archive, topReports],
              GetDefaultFolder = (\<lambda>n. MAPIFolder inboxName [])\<rparr>"

text \<open>
  The scheduler after it has started its first task, and a configuration whose check
  interval is 0.
\<close>

definition firstCycleRunning :: scheduler where
  "firstCycleRunning = \<lparr>semaphore = 1, at = AtWaitNextCheck, tasks = [InBody], slept = []\<rparr>"

definition cfgZero :: Config where
  "cfgZero = cfgPlain\<lparr>CheckIntervalSeconds := 0\<rparr>"

section \<open>Theorems about truncateByRunes\<close>

lemma asc_ellipsis: "asc ''...'' = [46, 46, 46]"
  by (simp add: asc_def)

lemma length_ellipsis: "length (asc ''...'') = 3"
  by (simp add: asc_def)

text \<open>
  C10, as stated, for every bound: fails at a negative bound, where the code panics
  instead of returning a string.
\<close>

theorem truncateByRunes_negative_bound_counterexample:
  "truncateByRunes (asc ''ab'') (- 1) = Inl SliceBoundsOutOfRange
   \<and> truncateByRunes (asc ''ab'') (- 1) \<noteq> Inr (take (nat (- 1)) (asc ''ab'') @ asc ''...'')"
  by (simp add: truncateByRunes_def asc_def)

text \<open>
  C10 (amended): for every text and every bound \<open>maxRunes \<ge> 0\<close>, a text of at most
  \<open>maxRunes\<close> runes is returned unchanged, with no ellipsis; a longer one is cut to
  exactly its first \<open>maxRunes\<close> runes followed by the three runes "...".
\<close>

theorem truncateByRunes_short_or_cut:
  assumes "0 \<le> maxRunes"
  shows "truncateByRunes text maxRunes =
           Inr (if int (length text) \<le> maxRunes then text
                else take (nat maxRunes) text @ [46, 46, 46])"
  using assms by (simp add: truncateByRunes_def asc_ellipsis)

theorem truncateByRunes_short_or_cut_witness:
  "(0::int) \<le> 3
   \<and> truncateByRunes (asc ''abcde'') 3 = Inr (asc ''abc...'')
   \<and> truncateByRunes (asc ''abc'') 3 = Inr (asc ''abc'')"
proof -
  have h: "(0::int) \<le> 3" by simp
  show ?thesis
    using truncateByRunes_short_or_cut [OF h, of "asc ''abcde''"]
          truncateByRunes_short_or_cut [OF h, of "asc ''abc''"]
    by (simp add: asc_def)
qed

section \<open>Theorems about the formatter\<close>

lemmas fmt_eval = formatMessage_def composeMessage_def bodySection_def truncateByRunes_def
  EscapeString_def escapeRune_def asc_def headerLines_def bodyLabel_def cutAtMarker_def
  asciiFold_def messageHeader_def

subsection \<open>The matcher finds the first occurrence\<close>

lemma matchAt_iff:
  "matchAt sf pat msg \<longleftrightarrow>
     length pat \<le> length msg \<and> map sf (take (length pat) msg) = map sf pat"
  by (induction sf pat msg rule: matchAt.induct) auto

lemma occursAt_0: "occursAt sf pat msg 0 = matchAt sf pat msg"
  by (simp add: occursAt_def matchAt_iff)

lemma occursAt_Suc: "occursAt sf pat (c # cs) (Suc i) = occursAt sf pat cs i"
  by (simp add: occursAt_def)


lemma FindStringIndex_Some:
  "FindStringIndex sf pat msg = Some i \<Longrightarrow>
     occursAt sf pat msg i \<and> (\<forall>j<i. \<not> occursAt sf pat msg j)"
proof (induction msg arbitrary: i)
  case Nil
  then show ?case by (auto simp: occursAt_0 split: if_splits)
next
  case (Cons c cs)
  show ?case
  proof (cases "matchAt sf pat (c # cs)")
    case True
    with Cons.prems show ?thesis by (simp add: occursAt_0)
  next
    case False
    with Cons.prems obtain k where k: "FindStringIndex sf pat cs = Some k" "i = Suc k"
      by auto
    from Cons.IH [OF k(1)] have ih: "occursAt sf pat cs k" "\<forall>j<k. \<not> occursAt sf pat cs j"
      by simp_all
    have "\<not> occursAt sf pat (c # cs) j" if "j < Suc k" for j
    proof (cases j)
      case 0
      with False show ?thesis by (simp add: occursAt_0)
    next
      case (Suc j')
      with that ih(2) show ?thesis by (simp add: occursAt_Suc)
    qed
    with ih(1) k(2) show ?thesis by (simp add: occursAt_Suc)
  qed
qed



subsection \<open>The stages of formatMessage\<close>

lemma length_escapeRune: "1 \<le> length (escapeRune r)"
  by (simp add: escapeRune_def asc_def)

lemma length_EscapeString: "length s \<le> length (EscapeString s)"
proof (induction s)
  case Nil
  show ?case by (simp add: EscapeString_def)
next
  case (Cons r rs)
  have "1 \<le> length (escapeRune r)" by (rule length_escapeRune)
  with Cons show ?case by (simp add: EscapeString_def)
qed

lemma EscapeString_replicate_a: "EscapeString (replicate n 97) = replicate n 97"
  by (induction n) (simp_all add: EscapeString_def escapeRune_def)

lemma bodySection_eq:
  "bodySection body n =
     Inr (if n = 0 then []
          else bodyLabel @
            (if 0 < n \<and> n < int (length (EscapeString body))
             then take (nat n) (EscapeString body) @ asc ''...''
             else EscapeString body))"
  by (simp add: bodySection_def truncateByRunes_def)

lemma composeMessage_eq:
  "composeMessage cfg folder sender subject body n =
     Inr (messageHeader cfg folder sender subject @
          (if n = 0 then []
           else bodyLabel @
             (if 0 < n \<and> n < int (length (EscapeString body))
              then take (nat n) (EscapeString body) @ asc ''...''
              else EscapeString body)))"
  by (simp add: composeMessage_def bodySection_eq)

lemma formatMessage_eq:
  "composeMessage cfg folder sender subject body n = Inr composed \<Longrightarrow>
   formatMessage sf cfg folder sender subject body n =
     truncateByRunes (cutAtMarker sf (CutText cfg) composed) 4000"
  by (simp add: formatMessage_def)

lemma truncateByRunes_4000:
  "truncateByRunes m 4000 = Inr (if length m \<le> 4000 then m else take 4000 m @ asc ''...'')"
  by (simp add: truncateByRunes_def)

lemma cutAtMarker_absent:
  assumes "pat = [] \<or> (\<forall>i. \<not> occursAt sf pat msg i)"
  shows "cutAtMarker sf pat msg = msg"
proof (cases "FindStringIndex sf pat msg")
  case None
  then show ?thesis by (simp add: cutAtMarker_def)
next
  case (Some i)
  from FindStringIndex_Some [OF Some] assms have "pat = []" by blast
  then show ?thesis by (simp add: cutAtMarker_def)
qed

text \<open>
  The cap at work: a body of 4001 letters under \<open>maxLength = 4000\<close> and no cut marker.
  The composed text has 4080 characters; the first 4000 and the ellipsis are returned.
\<close>

lemma formatMessage_global_cap_example:
  "formatMessage sf cfgPlain (asc ''In'') (asc ''Bob'') (asc ''Bill'') (replicate 4001 97) 4000
     = Inr (messageHeader cfgPlain (asc ''In'') (asc ''Bob'') (asc ''Bill'') @ bodyLabel
              @ replicate 3923 97 @ asc ''...'')"
proof -
  have "formatMessage sf cfgPlain (asc ''In'') (asc ''Bob'') (asc ''Bill'') (replicate 4001 97) 4000
     = truncateByRunes (messageHeader cfgPlain (asc ''In'') (asc ''Bob'') (asc ''Bill'') @ bodyLabel
              @ replicate 4000 97 @ asc ''...'') 4000"
    by (simp add: formatMessage_def composeMessage_eq EscapeString_replicate_a
          cutAtMarker_def cfgPlain_def)
  then show ?thesis
    by (simp add: fmt_eval cfgPlain_def cfgCut_def)
qed

text \<open>
  C3, as stated: fails twice. The message returned can have more than 4000 characters:
  in the run above it has 4003, the 4000 kept and the ellipsis. And it is not the text
  composed from header and body that is capped, but what the cut-marker stage leaves of
  it: with the cut marker \<^verbatim>\<open>abcd\<close>, the folder \<^verbatim>\<open>abcd\<close> and a subject of 5000 letters
  the composed text has 5057 characters, and the message returned is its first 14
  characters, with no ellipsis.
\<close>

theorem formatMessage_cap_counterexample:
  "formatMessage asciiFold cfgPlain (asc ''In'') (asc ''Bob'') (asc ''Bill'')
       (replicate 4001 97) 4000
     = Inr (messageHeader cfgPlain (asc ''In'') (asc ''Bob'') (asc ''Bill'') @ bodyLabel
              @ replicate 3923 97 @ asc ''...'')
   \<and> length (messageHeader cfgPlain (asc ''In'') (asc ''Bob'') (asc ''Bill'') @ bodyLabel
              @ replicate 3923 97 @ asc ''...'') = 4003
   \<and> composeMessage cfgABCD (asc ''abcd'') (asc ''Bob'') (replicate 5000 97) [] 0
     = Inr (messageHeader cfgABCD (asc ''abcd'') (asc ''Bob'') (replicate 5000 97))
   \<and> length (messageHeader cfgABCD (asc ''abcd'') (asc ''Bob'') (replicate 5000 97)) = 5057
   \<and> formatMessage asciiFold cfgABCD (asc ''abcd'') (asc ''Bob'') (replicate 5000 97) [] 0
     = Inr (asc ''<b>'' @ [1055, 1072, 1087, 1082, 1072] @ asc '':</b> '')"
proof -
  have a: "formatMessage asciiFold cfgPlain (asc ''In'') (asc ''Bob'') (asc ''Bill'')
       (replicate 4001 97) 4000
     = Inr (messageHeader cfgPlain (asc ''In'') (asc ''Bob'') (asc ''Bill'') @ bodyLabel
              @ replicate 3923 97 @ asc ''...'')"
    by (rule formatMessage_global_cap_example)
  have b: "length (messageHeader cfgPlain (asc ''In'') (asc ''Bob'') (asc ''Bill'') @ bodyLabel
              @ replicate 3923 97 @ asc ''...'') = 4003"
    by (simp add: fmt_eval cfgPlain_def cfgCut_def)
  have c: "composeMessage cfgABCD (asc ''abcd'') (asc ''Bob'') (replicate 5000 97) [] 0
     = Inr (messageHeader cfgABCD (asc ''abcd'') (asc ''Bob'') (replicate 5000 97))"
    by (simp add: composeMessage_eq)
  have h: "messageHeader cfgABCD (asc ''abcd'') (asc ''Bob'') (replicate 5000 97)
     = asc ''<b>'' @ [1055, 1072, 1087, 1082, 1072] @ asc '':</b> '' @ asc ''abcd'' @ [10]
       @ asc ''<b>'' @ [1054, 1090, 1087, 1088, 1072, 1074, 1080, 1090, 1077, 1083, 1100]
       @ asc '':</b> '' @ asc ''Bob'' @ [10]
       @ asc ''<b>'' @ [1058, 1077, 1084, 1072] @ asc '':</b> '' @ replicate 5000 97 @ [10]"
    by (simp add: messageHeader_def headerLines_def EscapeString_replicate_a cfgABCD_def
          cfgCut_def)
       (simp add: EscapeString_def escapeRune_def asc_def)
  have d: "length (messageHeader cfgABCD (asc ''abcd'') (asc ''Bob'') (replicate 5000 97)) = 5057"
    unfolding h by (simp add: asc_def)
  have e: "formatMessage asciiFold cfgABCD (asc ''abcd'') (asc ''Bob'') (replicate 5000 97) [] 0
     = Inr (asc ''<b>'' @ [1055, 1072, 1087, 1082, 1072] @ asc '':</b> '')"
    unfolding formatMessage_def c h
    by (simp add: cutAtMarker_def cfgABCD_def truncateByRunes_def asc_def asciiFold_def)
  from a b c d e show ?thesis by blast
qed

text \<open>
  C3 (amended): whatever the folder, sender, subject, body and \<open>maxLength\<close>,
  formatMessage returns (it never panics), and the cap is on the text the cut-marker
  stage leaves: when that text has at most 4000 characters it is returned as it is, else
  exactly its first 4000 characters are returned, followed by the ellipsis "...", 4003
  characters in all. \<open>maxLength\<close> plays no part in the cap.
\<close>

theorem formatMessage_global_cap:
  "\<exists>composed result.
      composeMessage cfg folder sender subject body maxLength = Inr composed
    \<and> formatMessage sf cfg folder sender subject body maxLength = Inr result
    \<and> result = (if length (cutAtMarker sf (CutText cfg) composed) \<le> 4000
                 then cutAtMarker sf (CutText cfg) composed
                 else take 4000 (cutAtMarker sf (CutText cfg) composed) @ asc ''...'')
    \<and> take 4000 result = take 4000 (cutAtMarker sf (CutText cfg) composed)
    \<and> length result \<le> 4003"
proof -
  obtain composed
    where c: "composeMessage cfg folder sender subject body maxLength = Inr composed"
    using composeMessage_eq by blast
  let ?m = "cutAtMarker sf (CutText cfg) composed"
  let ?r = "if length ?m \<le> 4000 then ?m else take 4000 ?m @ asc ''...''"
  have f: "formatMessage sf cfg folder sender subject body maxLength = Inr ?r"
    using formatMessage_eq [OF c] by (simp add: truncateByRunes_4000)
  have t: "take 4000 ?r = take 4000 ?m" by simp
  have l: "length ?r \<le> 4003" by (simp add: length_ellipsis)
  from c f t l show ?thesis by blast
qed



text \<open>
  C5, read on the message formatMessage returns: fails. With \<open>maxLength = 4000\<close>, no cut
  marker and a body of 4001 letters, the body section of the output holds 3923 letters
  before its ellipsis, not 4000: the cap of 4000 characters on the whole message cuts it.
  With the cut marker \<^verbatim>\<open>abcd\<close>, \<open>maxLength = 5\<close> and the body \<^verbatim>\<open>abcdefgh\<close>, the
  output ends with the label of the body section and no body at all.
\<close>

theorem formatMessage_body_section_counterexample:
  "(4000::int) < int (length (replicate 4001 (97::nat)))
   \<and> formatMessage asciiFold cfgPlain (asc ''In'') (asc ''Bob'') (asc ''Bill'')
         (replicate 4001 97) 4000
       = Inr (messageHeader cfgPlain (asc ''In'') (asc ''Bob'') (asc ''Bill'') @ bodyLabel
                @ replicate 3923 97 @ asc ''...'')
   \<and> formatMessage asciiFold cfgPlain (asc ''In'') (asc ''Bob'') (asc ''Bill'')
         (replicate 4001 97) 4000
       \<noteq> Inr (messageHeader cfgPlain (asc ''In'') (asc ''Bob'') (asc ''Bill'') @ bodyLabel
                 @ take 4000 (EscapeString (replicate 4001 97)) @ asc ''...'')
   \<and> (5::int) < int (length (asc ''abcdefgh''))
   \<and> formatMessage asciiFold cfgABCD (asc ''In'') (asc ''Bob'') (asc ''Bill'')
         (asc ''abcdefgh'') 5
       = Inr (messageHeader cfgABCD (asc ''In'') (asc ''Bob'') (asc ''Bill'') @ bodyLabel)
   \<and> formatMessage asciiFold cfgABCD (asc ''In'') (asc ''Bob'') (asc ''Bill'')
         (asc ''abcdefgh'') 5
       \<noteq> Inr (messageHeader cfgABCD (asc ''In'') (asc ''Bob'') (asc ''Bill'') @ bodyLabel
                 @ take 5 (EscapeString (asc ''abcdefgh'')) @ asc ''...'')"
proof -
  have a: "formatMessage asciiFold cfgPlain (asc ''In'') (asc ''Bob'') (asc ''Bill'')
         (replicate 4001 97) 4000
       = Inr (messageHeader cfgPlain (asc ''In'') (asc ''Bob'') (asc ''Bill'') @ bodyLabel
                @ replicate 3923 97 @ asc ''...'')"
    by (rule formatMessage_global_cap_example)
  have b: "messageHeader cfgPlain (asc ''In'') (asc ''Bob'') (asc ''Bill'') @ bodyLabel
                @ replicate 3923 97 @ asc ''...''
       \<noteq> messageHeader cfgPlain (asc ''In'') (asc ''Bob'') (asc ''Bill'') @ bodyLabel
                 @ take 4000 (EscapeString (replicate 4001 97)) @ asc ''...''"
    by (simp add: EscapeString_replicate_a asc_def replicate_eq_replicate)
  have c: "formatMessage asciiFold cfgABCD (asc ''In'') (asc ''Bob'') (asc ''Bill'')
         (asc ''abcdefgh'') 5
       = Inr (messageHeader cfgABCD (asc ''In'') (asc ''Bob'') (asc ''Bill'') @ bodyLabel)"
    by (simp add: fmt_eval cfgABCD_def cfgCut_def)
  have d: "messageHeader cfgABCD (asc ''In'') (asc ''Bob'') (asc ''Bill'') @ bodyLabel
       \<noteq> messageHeader cfgABCD (asc ''In'') (asc ''Bob'') (asc ''Bill'') @ bodyLabel
                 @ take 5 (EscapeString (asc ''abcdefgh'')) @ asc ''...''"
    by (simp add: asc_def)
  from a b c d show ?thesis by (simp add: asc_def)
qed

text \<open>
  C5 (amended): in the text formatMessage composes from header and body, before the cut
  marker is looked for and before the cap of 4000 characters: with \<open>maxLength = 0\<close> there
  is the header alone, whatever the body, and the message returned does not depend on
  the body; with a negative \<open>maxLength\<close> the header is followed by the label and the
  whole escaped body; with \<open>maxLength = N > 0\<close> and an escaped body longer than \<open>N\<close>
  characters (which a body longer than \<open>N\<close> always gives), by the label, exactly the
  first \<open>N\<close> characters of the escaped body, counted in characters, and the ellipsis;
  with \<open>N > 0\<close> and an escaped body of at most \<open>N\<close> characters, by the label and the
  whole escaped body. The message returned is this composed text whenever no cut marker
  occurs in it and it has at most 4000 characters.
\<close>

theorem composeMessage_body_policy:
  "composeMessage cfg folder sender subject body 0 = Inr (messageHeader cfg folder sender subject)
   \<and> formatMessage sf cfg folder sender subject body 0 =
       formatMessage sf cfg folder sender subject body' 0
   \<and> (maxLength < 0 \<longrightarrow>
        composeMessage cfg folder sender subject body maxLength =
          Inr (messageHeader cfg folder sender subject @ bodyLabel @ EscapeString body))
   \<and> (0 < maxLength \<and> maxLength < int (length (EscapeString body)) \<longrightarrow>
        composeMessage cfg folder sender subject body maxLength =
          Inr (messageHeader cfg folder sender subject @ bodyLabel
                 @ take (nat maxLength) (EscapeString body) @ asc ''...'')
        \<and> int (length (take (nat maxLength) (EscapeString body))) = maxLength)
   \<and> (maxLength < int (length body) \<longrightarrow> maxLength < int (length (EscapeString body)))
   \<and> (0 < maxLength \<and> int (length (EscapeString body)) \<le> maxLength \<longrightarrow>
        composeMessage cfg folder sender subject body maxLength =
          Inr (messageHeader cfg folder sender subject @ bodyLabel @ EscapeString body))
   \<and> (composeMessage cfg folder sender subject body maxLength = Inr composed
        \<and> (CutText cfg = [] \<or> (\<forall>i. \<not> occursAt sf (CutText cfg) composed i))
        \<and> length composed \<le> 4000 \<longrightarrow>
        formatMessage sf cfg folder sender subject body maxLength = Inr composed)"
proof -
  have a: "composeMessage cfg folder sender subject body 0
             = Inr (messageHeader cfg folder sender subject)"
    by (simp add: composeMessage_eq)
  have a': "formatMessage sf cfg folder sender subject body 0 =
              formatMessage sf cfg folder sender subject body' 0"
    by (simp add: formatMessage_def composeMessage_eq)
  have b: "maxLength < 0 \<longrightarrow>
        composeMessage cfg folder sender subject body maxLength =
          Inr (messageHeader cfg folder sender subject @ bodyLabel @ EscapeString body)"
    by (simp add: composeMessage_eq)
  have c: "0 < maxLength \<and> maxLength < int (length (EscapeString body)) \<longrightarrow>
        composeMessage cfg folder sender subject body maxLength =
          Inr (messageHeader cfg folder sender subject @ bodyLabel
                 @ take (nat maxLength) (EscapeString body) @ asc ''...'')
        \<and> int (length (take (nat maxLength) (EscapeString body))) = maxLength"
    by (auto simp add: composeMessage_eq min_def)
  have d: "maxLength < int (length body) \<longrightarrow> maxLength < int (length (EscapeString body))"
    using length_EscapeString [of body] by simp
  have e: "0 < maxLength \<and> int (length (EscapeString body)) \<le> maxLength \<longrightarrow>
        composeMessage cfg folder sender subject body maxLength =
          Inr (messageHeader cfg folder sender subject @ bodyLabel @ EscapeString body)"
    by (simp add: composeMessage_eq)
  have f: "composeMessage cfg folder sender subject body maxLength = Inr composed
        \<and> (CutText cfg = [] \<or> (\<forall>i. \<not> occursAt sf (CutText cfg) composed i))
        \<and> length composed \<le> 4000 \<longrightarrow>
        formatMessage sf cfg folder sender subject body maxLength = Inr composed"
  proof (intro impI, elim conjE)
    assume c: "composeMessage cfg folder sender subject body maxLength = Inr composed"
       and n: "CutText cfg = [] \<or> (\<forall>i. \<not> occursAt sf (CutText cfg) composed i)"
       and l: "length composed \<le> 4000"
    from n have "cutAtMarker sf (CutText cfg) composed = composed"
      by (rule cutAtMarker_absent)
    with formatMessage_eq [OF c] l show
      "formatMessage sf cfg folder sender subject body maxLength = Inr composed"
      by (simp add: truncateByRunes_4000)
  qed
  from a a' b c d e f show ?thesis by blast
qed

text \<open>
  Runs of the policy: a Cyrillic body of six characters under \<open>maxLength = 3\<close> keeps
  three characters and the ellipsis; the body \<^verbatim>\<open>a<b\<close> is escaped to six characters,
  kept whole under \<open>maxLength = - 1\<close> and \<open>6\<close>, cut to \<^verbatim>\<open>a&\<close> under \<open>2\<close>.
\<close>

theorem composeMessage_body_policy_witness:
  "composeMessage cfgPlain (asc ''In'') (asc ''Bob'') (asc ''Bill'') privet 0
     = Inr (messageHeader cfgPlain (asc ''In'') (asc ''Bob'') (asc ''Bill''))
   \<and> (- 1 :: int) < 0
   \<and> composeMessage cfgPlain (asc ''In'') (asc ''Bob'') (asc ''Bill'') (asc ''a<b'') (- 1)
       = Inr (messageHeader cfgPlain (asc ''In'') (asc ''Bob'') (asc ''Bill'') @ bodyLabel
                @ asc ''a&lt;b'')
   \<and> (0::int) < 3 \<and> (3::int) < int (length privet)
   \<and> (3::int) < int (length (EscapeString privet))
   \<and> composeMessage cfgPlain (asc ''In'') (asc ''Bob'') (asc ''Bill'') privet 3
       = Inr (messageHeader cfgPlain (asc ''In'') (asc ''Bob'') (asc ''Bill'') @ bodyLabel
                @ [1055, 1088, 1080] @ asc ''...'')
   \<and> (0::int) < 2 \<and> (2::int) < int (length (asc ''a<b''))
   \<and> composeMessage cfgPlain (asc ''In'') (asc ''Bob'') (asc ''Bill'') (asc ''a<b'') 2
       = Inr (messageHeader cfgPlain (asc ''In'') (asc ''Bob'') (asc ''Bill'') @ bodyLabel
                @ asc ''a&'' @ asc ''...'')
   \<and> (0::int) < 6 \<and> int (length (EscapeString (asc ''a<b''))) \<le> 6
   \<and> composeMessage cfgPlain (asc ''In'') (asc ''Bob'') (asc ''Bill'') (asc ''a<b'') 6
       = Inr (messageHeader cfgPlain (asc ''In'') (asc ''Bob'') (asc ''Bill'') @ bodyLabel
                @ asc ''a&lt;b'')
   \<and> CutText cfgPlain = []
   \<and> length (messageHeader cfgPlain (asc ''In'') (asc ''Bob'') (asc ''Bill'') @ bodyLabel
                @ [1055, 1088, 1080] @ asc ''...'') \<le> 4000
   \<and> formatMessage asciiFold cfgPlain (asc ''In'') (asc ''Bob'') (asc ''Bill'') privet 3
       = Inr (messageHeader cfgPlain (asc ''In'') (asc ''Bob'') (asc ''Bill'') @ bodyLabel
                @ [1055, 1088, 1080] @ asc ''...'')"
proof -
  let ?h = "messageHeader cfgPlain (asc ''In'') (asc ''Bob'') (asc ''Bill'')"
  have h1: "(- 1 :: int) < 0" by simp
  have h2: "(0::int) < 3 \<and> (3::int) < int (length (EscapeString privet))"
    by (simp add: privet_def EscapeString_def escapeRune_def)
  have h2': "(3::int) < int (length privet)" by (simp add: privet_def)
  have h3: "(0::int) < 2 \<and> (2::int) < int (length (EscapeString (asc ''a<b'')))"
    by (simp add: asc_def EscapeString_def escapeRune_def)
  have h3': "(2::int) < int (length (asc ''a<b''))" by (simp add: asc_def)
  have h4: "(0::int) < 6 \<and> int (length (EscapeString (asc ''a<b''))) \<le> 6"
    by (simp add: asc_def EscapeString_def escapeRune_def)
  have h5: "CutText cfgPlain = []" by (simp add: cfgPlain_def)
  have e1: "EscapeString (asc ''a<b'') = asc ''a&lt;b''"
    by (simp add: asc_def EscapeString_def escapeRune_def)
  have e2: "take (nat 3) (EscapeString privet) = [1055, 1088, 1080]"
    by (simp add: privet_def EscapeString_def escapeRune_def)
  have e3: "take (nat 2) (EscapeString (asc ''a<b'')) = asc ''a&''"
    by (simp add: asc_def EscapeString_def escapeRune_def)
  have h6: "length (?h @ bodyLabel @ [1055, 1088, 1080] @ asc ''...'') \<le> 4000"
    by (simp add: fmt_eval cfgPlain_def cfgCut_def)
  note p0 = composeMessage_body_policy
    [of cfgPlain "asc ''In''" "asc ''Bob''" "asc ''Bill''" privet asciiFold privet 3
        "?h @ bodyLabel @ [1055, 1088, 1080] @ asc ''...''"]
  note p1 = composeMessage_body_policy
    [of cfgPlain "asc ''In''" "asc ''Bob''" "asc ''Bill''" "asc ''a<b''" asciiFold privet "- 1"]
  note p2 = composeMessage_body_policy
    [of cfgPlain "asc ''In''" "asc ''Bob''" "asc ''Bill''" "asc ''a<b''" asciiFold privet 2]
  note p3 = composeMessage_body_policy
    [of cfgPlain "asc ''In''" "asc ''Bob''" "asc ''Bill''" "asc ''a<b''" asciiFold privet 6]
  have c0: "composeMessage cfgPlain (asc ''In'') (asc ''Bob'') (asc ''Bill'') privet 0 = Inr ?h"
    using p0 by blast
  have c1: "composeMessage cfgPlain (asc ''In'') (asc ''Bob'') (asc ''Bill'') (asc ''a<b'') (- 1)
       = Inr (?h @ bodyLabel @ asc ''a&lt;b'')"
    using p1 h1 e1 by simp
  have c2: "composeMessage cfgPlain (asc ''In'') (asc ''Bob'') (asc ''Bill'') privet 3
       = Inr (?h @ bodyLabel @ [1055, 1088, 1080] @ asc ''...'')"
    using p0 h2 e2 by simp
  have c3: "composeMessage cfgPlain (asc ''In'') (asc ''Bob'') (asc ''Bill'') (asc ''a<b'') 2
       = Inr (?h @ bodyLabel @ asc ''a&'' @ asc ''...'')"
    using p2 h3 e3 by simp
  have c4: "composeMessage cfgPlain (asc ''In'') (asc ''Bob'') (asc ''Bill'') (asc ''a<b'') 6
       = Inr (?h @ bodyLabel @ asc ''a&lt;b'')"
    using p3 h4 e1 by simp
  have c5: "formatMessage asciiFold cfgPlain (asc ''In'') (asc ''Bob'') (asc ''Bill'') privet 3
       = Inr (?h @ bodyLabel @ [1055, 1088, 1080] @ asc ''...'')"
    using p0 c2 h5 h6 by blast
  from c0 h1 c1 h2 h2' c2 h3 h3' c3 h4 c4 h5 h6 c5 show ?thesis by blast
qed

section \<open>Theorems about delivery\<close>

lemmas net_eval = netAnswering_def marshalPairs_def

text \<open>The steps of a delivery, one after the other.\<close>

lemma sendTelegramMessage_steps:
  "sendTelegramMessage net cfg msg chatID =
     (case jsonMarshal net (sendMessageData msg chatID) of
        Inl e \<Rightarrow> (Some (MarshalFailed e), [])
      | Inr jsonData \<Rightarrow>
          (case newRequestError net (sendMessageURL cfg) of
             Some e \<Rightarrow> (Some (RequestCreationFailed e), [])
           | None \<Rightarrow>
               ((case clientDo net (postRequest (sendMessageURL cfg) jsonData) of
                   Inl e \<Rightarrow> Some (RequestFailed e)
                 | Inr resp \<Rightarrow>
                     (case RespBody resp of
                        Inl e \<Rightarrow> Some (ReadFailed e)
                      | Inr body \<Rightarrow>
                          if StatusCode resp \<noteq> 200
                          then Some (BadStatus (StatusCode resp) body) else None)),
                [postRequest (sendMessageURL cfg) jsonData])))"
  by (simp add: sendTelegramMessage_def postJSON_def Let_def sendMessageURL_def
        sendMessageData_def postRequest_def split: sum.splits option.splits)

text \<open>
  C8, as stated: fails where the claim has every failure carry the status code and the
  response body. A transport error gives a failure that carries the text of that error,
  and a response with status 500 whose body cannot be read gives a failure that carries
  the read error and no status code.
\<close>

theorem sendTelegramMessage_failure_detail_counterexample:
  "fst (sendTelegramMessage netDown cfgPlain (asc ''hello'') (asc ''42''))
     = Some (RequestFailed (asc ''timeout''))
   \<and> fst (sendTelegramMessage netUnreadable cfgPlain (asc ''hello'') (asc ''42''))
     = Some (ReadFailed (asc ''reset''))"
  by (simp add: sendTelegramMessage_def postJSON_def netDown_def netUnreadable_def
        marshalPairs_def Let_def)

text \<open>
  C8 (amended): sendTelegramMessage marshals the payload (chat, text and the parse mode
  \<^verbatim>\<open>HTML\<close>), builds one request (method \<^verbatim>\<open>POST\<close>, the URL of the \<^verbatim>\<open>sendMessage\<close>
  endpoint, content type \<^verbatim>\<open>application/json\<close>, the marshalled payload as body) and
  hands it to \<^verbatim>\<open>client.Do\<close> once. It returns \<^verbatim>\<open>nil\<close> exactly when marshalling and
  building succeed and that call returns a response (the last one, after the redirects
  the client follows by itself) of status 200 whose body can be read. When that response
  has any other status and a readable body, the failure carries that status code and that
  body; when \<^verbatim>\<open>client.Do\<close> returns an error, or the body cannot be read, the failure
  carries that error; when marshalling or building the request fails, the failure
  carries that error and \<^verbatim>\<open>client.Do\<close> is not called. \<^verbatim>\<open>client.Do\<close> is called at most
  once: the program makes no retry of its own.
\<close>

theorem sendTelegramMessage_outcome:
  "(\<forall>e. jsonMarshal net (sendMessageData msg chatID) = Inl e \<longrightarrow>
        sendTelegramMessage net cfg msg chatID = (Some (MarshalFailed e), []))
   \<and> (\<forall>jsonData e.
        jsonMarshal net (sendMessageData msg chatID) = Inr jsonData
          \<and> newRequestError net (sendMessageURL cfg) = Some e \<longrightarrow>
        sendTelegramMessage net cfg msg chatID = (Some (RequestCreationFailed e), []))
   \<and> (\<forall>jsonData.
        jsonMarshal net (sendMessageData msg chatID) = Inr jsonData
          \<and> newRequestError net (sendMessageURL cfg) = None \<longrightarrow>
        snd (sendTelegramMessage net cfg msg chatID)
          = [postRequest (sendMessageURL cfg) jsonData]
        \<and> (\<forall>e. clientDo net (postRequest (sendMessageURL cfg) jsonData) = Inl e \<longrightarrow>
              fst (sendTelegramMessage net cfg msg chatID) = Some (RequestFailed e))
        \<and> (\<forall>resp e.
              clientDo net (postRequest (sendMessageURL cfg) jsonData) = Inr resp
                \<and> RespBody resp = Inl e \<longrightarrow>
              fst (sendTelegramMessage net cfg msg chatID) = Some (ReadFailed e))
        \<and> (\<forall>resp body.
              clientDo net (postRequest (sendMessageURL cfg) jsonData) = Inr resp
                \<and> RespBody resp = Inr body \<and> StatusCode resp \<noteq> 200 \<longrightarrow>
              fst (sendTelegramMessage net cfg msg chatID)
                = Some (BadStatus (StatusCode resp) body))
        \<and> (\<forall>resp body.
              clientDo net (postRequest (sendMessageURL cfg) jsonData) = Inr resp
                \<and> RespBody resp = Inr body \<and> StatusCode resp = 200 \<longrightarrow>
              fst (sendTelegramMessage net cfg msg chatID) = None))
   \<and> (fst (sendTelegramMessage net cfg msg chatID) = None \<longleftrightarrow>
        (\<exists>jsonData resp body.
            jsonMarshal net (sendMessageData msg chatID) = Inr jsonData
          \<and> newRequestError net (sendMessageURL cfg) = None
          \<and> clientDo net (postRequest (sendMessageURL cfg) jsonData) = Inr resp
          \<and> StatusCode resp = 200 \<and> RespBody resp = Inr body))
   \<and> length (snd (sendTelegramMessage net cfg msg chatID)) \<le> 1"
  unfolding sendTelegramMessage_steps
  by (auto split: sum.splits option.splits)


text \<open>
  Runs, for the message \<^verbatim>\<open>hello\<close> and the chat \<^verbatim>\<open>42\<close>: a marshaller that fails and a
  URL that does not parse, both without any call of \<^verbatim>\<open>client.Do\<close>; status 429, which
  fails with the code and the body; status 200, which succeeds; a transport error; a
  body that cannot be read.
\<close>

theorem sendTelegramMessage_outcome_witness:
  "jsonMarshal netNoMarshal (sendMessageData (asc ''hello'') (asc ''42'')) = Inl (asc ''unsupported'')
   \<and> sendTelegramMessage netNoMarshal cfgPlain (asc ''hello'') (asc ''42'')
       = (Some (MarshalFailed (asc ''unsupported'')), [])
   \<and> jsonMarshal netBadURL (sendMessageData (asc ''hello'') (asc ''42'')) = Inr helloJSON
   \<and> newRequestError netBadURL (sendMessageURL cfgPlain) = Some (asc ''invalid'')
   \<and> sendTelegramMessage netBadURL cfgPlain (asc ''hello'') (asc ''42'')
       = (Some (RequestCreationFailed (asc ''invalid'')), [])
   \<and> jsonMarshal (netAnswering 429 (asc ''slow'')) (sendMessageData (asc ''hello'') (asc ''42''))
       = Inr helloJSON
   \<and> newRequestError (netAnswering 429 (asc ''slow'')) (sendMessageURL cfgPlain) = None
   \<and> clientDo (netAnswering 429 (asc ''slow'')) (postRequest (sendMessageURL cfgPlain) helloJSON)
       = Inr \<lparr>StatusCode = 429, RespBody = Inr (asc ''slow'')\<rparr>
   \<and> sendTelegramMessage (netAnswering 429 (asc ''slow'')) cfgPlain (asc ''hello'') (asc ''42'')
       = (Some (BadStatus 429 (asc ''slow'')), [postRequest (sendMessageURL cfgPlain) helloJSON])
   \<and> clientDo (netAnswering 200 (asc ''ok'')) (postRequest (sendMessageURL cfgPlain) helloJSON)
       = Inr \<lparr>StatusCode = 200, RespBody = Inr (asc ''ok'')\<rparr>
   \<and> sendTelegramMessage (netAnswering 200 (asc ''ok'')) cfgPlain (asc ''hello'') (asc ''42'')
       = (None, [postRequest (sendMessageURL cfgPlain) helloJSON])
   \<and> clientDo netDown (postRequest (sendMessageURL cfgPlain) helloJSON) = Inl (asc ''timeout'')
   \<and> sendTelegramMessage netDown cfgPlain (asc ''hello'') (asc ''42'')
       = (Some (RequestFailed (asc ''timeout'')), [postRequest (sendMessageURL cfgPlain) helloJSON])
   \<and> clientDo netUnreadable (postRequest (sendMessageURL cfgPlain) helloJSON)
       = Inr \<lparr>StatusCode = 500, RespBody = Inl (asc ''reset'')\<rparr>
   \<and> sendTelegramMessage netUnreadable cfgPlain (asc ''hello'') (asc ''42'')
       = (Some (ReadFailed (asc ''reset'')), [postRequest (sendMessageURL cfgPlain) helloJSON])"
proof -
  let ?d = "sendMessageData (asc ''hello'') (asc ''42'')"
  let ?u = "sendMessageURL cfgPlain"
  let ?r = "postRequest ?u helloJSON"
  let ?n429 = "netAnswering 429 (asc ''slow'')"
  let ?n200 = "netAnswering 200 (asc ''ok'')"
  have mp: "marshalPairs ?d = Inr helloJSON"
    by (simp add: marshalPairs_def sendMessageData_def helloJSON_def asc_def)
  have a1: "jsonMarshal netNoMarshal ?d = Inl (asc ''unsupported'')"
    by (simp add: netNoMarshal_def)
  from sendTelegramMessage_outcome [of netNoMarshal "asc ''hello''" "asc ''42''" cfgPlain] a1
  have a2: "sendTelegramMessage netNoMarshal cfgPlain (asc ''hello'') (asc ''42'')
       = (Some (MarshalFailed (asc ''unsupported'')), [])" by blast
  have b1: "jsonMarshal netBadURL ?d = Inr helloJSON" by (simp add: netBadURL_def mp)
  have b2: "newRequestError netBadURL ?u = Some (asc ''invalid'')" by (simp add: netBadURL_def)
  from sendTelegramMessage_outcome [of netBadURL "asc ''hello''" "asc ''42''" cfgPlain] b1 b2
  have b3: "sendTelegramMessage netBadURL cfgPlain (asc ''hello'') (asc ''42'')
       = (Some (RequestCreationFailed (asc ''invalid'')), [])" by blast
  have c1: "jsonMarshal ?n429 ?d = Inr helloJSON" by (simp add: netAnswering_def mp)
  have c2: "newRequestError ?n429 ?u = None" by (simp add: netAnswering_def)
  have c3: "clientDo ?n429 ?r = Inr \<lparr>StatusCode = 429, RespBody = Inr (asc ''slow'')\<rparr>"
    by (simp add: netAnswering_def)
  from sendTelegramMessage_outcome [of ?n429 "asc ''hello''" "asc ''42''" cfgPlain] c1 c2 c3
  have "snd (sendTelegramMessage ?n429 cfgPlain (asc ''hello'') (asc ''42'')) = [?r]"
    and "fst (sendTelegramMessage ?n429 cfgPlain (asc ''hello'') (asc ''42''))
           = Some (BadStatus 429 (asc ''slow''))"
    by simp_all
  then have c4: "sendTelegramMessage ?n429 cfgPlain (asc ''hello'') (asc ''42'')
       = (Some (BadStatus 429 (asc ''slow'')), [?r])" by (simp add: prod_eq_iff)
  have d1: "jsonMarshal ?n200 ?d = Inr helloJSON" by (simp add: netAnswering_def mp)
  have d2: "newRequestError ?n200 ?u = None" by (simp add: netAnswering_def)
  have d3: "clientDo ?n200 ?r = Inr \<lparr>StatusCode = 200, RespBody = Inr (asc ''ok'')\<rparr>"
    by (simp add: netAnswering_def)
  from sendTelegramMessage_outcome [of ?n200 "asc ''hello''" "asc ''42''" cfgPlain] d1 d2 d3
  have "snd (sendTelegramMessage ?n200 cfgPlain (asc ''hello'') (asc ''42'')) = [?r]"
    and "fst (sendTelegramMessage ?n200 cfgPlain (asc ''hello'') (asc ''42'')) = None"
    by simp_all
  then have d4: "sendTelegramMessage ?n200 cfgPlain (asc ''hello'') (asc ''42'') = (None, [?r])"
    by (simp add: prod_eq_iff)
  have e1: "jsonMarshal netDown ?d = Inr helloJSON" by (simp add: netDown_def mp)
  have e2: "newRequestError netDown ?u = None" by (simp add: netDown_def)
  have e3: "clientDo netDown ?r = Inl (asc ''timeout'')" by (simp add: netDown_def)
  from sendTelegramMessage_outcome [of netDown "asc ''hello''" "asc ''42''" cfgPlain] e1 e2 e3
  have "snd (sendTelegramMessage netDown cfgPlain (asc ''hello'') (asc ''42'')) = [?r]"
    and "fst (sendTelegramMessage netDown cfgPlain (asc ''hello'') (asc ''42''))
           = Some (RequestFailed (asc ''timeout''))"
    by simp_all
  then have e4: "sendTelegramMessage netDown cfgPlain (asc ''hello'') (asc ''42'')
       = (Some (RequestFailed (asc ''timeout'')), [?r])" by (simp add: prod_eq_iff)
  have f1: "jsonMarshal netUnreadable ?d = Inr helloJSON" by (simp add: netUnreadable_def mp)
  have f2: "newRequestError netUnreadable ?u = None" by (simp add: netUnreadable_def)
  have f3: "clientDo netUnreadable ?r = Inr \<lparr>StatusCode = 500, RespBody = Inl (asc ''reset'')\<rparr>"
    by (simp add: netUnreadable_def)
  from sendTelegramMessage_outcome [of netUnreadable "asc ''hello''" "asc ''42''" cfgPlain]
    f1 f2 f3
  have "snd (sendTelegramMessage netUnreadable cfgPlain (asc ''hello'') (asc ''42'')) = [?r]"
    and "fst (sendTelegramMessage netUnreadable cfgPlain (asc ''hello'') (asc ''42''))
           = Some (ReadFailed (asc ''reset''))"
    by simp_all
  then have f4: "sendTelegramMessage netUnreadable cfgPlain (asc ''hello'') (asc ''42'')
       = (Some (ReadFailed (asc ''reset'')), [?r])" by (simp add: prod_eq_iff)
  from a1 a2 b1 b2 b3 c1 c2 c3 c4 d3 d4 e3 e4 f3 f4 show ?thesis by blast
qed

section \<open>Theorems about the dedup cache\<close>

lemma prepareEmail_no_id:
  "EntryID item = None \<Longrightarrow> prepareEmail sf cfg item folderName s = (Skip, s)"
  by (simp add: prepareEmail_def)

lemma prepareEmail_marked:
  "EntryID item = Some entryID \<Longrightarrow> isProcessed (processedEmails s) entryID \<Longrightarrow>
   prepareEmail sf cfg item folderName s = (Skip, s)"
  by (simp add: prepareEmail_def)

lemma prepareEmail_unmarked:
  assumes "EntryID item = Some entryID" and "\<not> isProcessed (processedEmails s) entryID"
  shows "snd (prepareEmail sf cfg item folderName s)
           = s\<lparr>processedEmails := (processedEmails s)(entryID \<mapsto> True)\<rparr>
         \<and> ((\<exists>p. fst (prepareEmail sf cfg item folderName s) = Crash p \<and> \<not> readable item)
            \<or> (\<exists>message chatID.
                  fst (prepareEmail sf cfg item folderName s) = Ready entryID message chatID
                  \<and> readable item))"
  using assms
  by (auto simp: prepareEmail_def Let_def readable_def formatMessage_def composeMessage_eq
        truncateByRunes_4000 split: option.splits)

lemma prepareEmail_readable:
  assumes "EntryID item = Some entryID" and "\<not> isProcessed (processedEmails s) entryID"
      and "readable item"
  shows "\<exists>message chatID. prepareEmail sf cfg item folderName s
           = (Ready entryID message chatID,
              s\<lparr>processedEmails := (processedEmails s)(entryID \<mapsto> True)\<rparr>)"
proof -
  from prepareEmail_unmarked [OF assms(1,2), of sf cfg folderName] assms(3)
  obtain message chatID where
    "fst (prepareEmail sf cfg item folderName s) = Ready entryID message chatID"
    "snd (prepareEmail sf cfg item folderName s)
           = s\<lparr>processedEmails := (processedEmails s)(entryID \<mapsto> True)\<rparr>"
    by blast
  then show ?thesis by (metis prod.collapse)
qed

lemma deliverEmail_attempts:
  "attempts (deliverEmail net cfg entryID message chatID s)
     = attempts s @ [(entryID, message, chatID, fst (sendTelegramMessage net cfg message chatID))]"
  by (simp add: deliverEmail_def Let_def)

lemma deliverEmail_cache:
  "processedEmails (deliverEmail net cfg entryID message chatID s)
     = (if fst (sendTelegramMessage net cfg message chatID) \<noteq> None
        then (processedEmails s)(entryID \<mapsto> False) else processedEmails s)"
  by (simp add: deliverEmail_def Let_def)

lemma isProcessed_upd:
  "isProcessed (m(k \<mapsto> b)) k' = (if k' = k then b else isProcessed m k')"
  by (simp add: isProcessed_def)

lemma prepareEmail_result:
  "prepareEmail sf cfg item folderName s = (Skip, s)
   \<or> (\<exists>entryID. EntryID item = Some entryID \<and> \<not> isProcessed (processedEmails s) entryID
         \<and> snd (prepareEmail sf cfg item folderName s)
               = s\<lparr>processedEmails := (processedEmails s)(entryID \<mapsto> True)\<rparr>
         \<and> ((\<exists>p. fst (prepareEmail sf cfg item folderName s) = Crash p)
              \<or> (\<exists>message chatID.
                    fst (prepareEmail sf cfg item folderName s) = Ready entryID message chatID)))"
proof (cases "EntryID item")
  case None
  then show ?thesis by (simp add: prepareEmail_no_id)
next
  case (Some entryID)
  show ?thesis
  proof (cases "isProcessed (processedEmails s) entryID")
    case True
    with Some show ?thesis by (simp add: prepareEmail_marked)
  next
    case False
    from prepareEmail_unmarked [OF Some False, of sf cfg folderName] Some False
    show ?thesis by blast
  qed
qed

lemma deliveredOnce_append:
  "deliveredOnce s e \<Longrightarrow> attempts s' = attempts s @ xs \<Longrightarrow> deliveredOnce s' e"
  by (auto simp: deliveredOnce_def)

lemma deliverEmail_sound:
  assumes "\<forall>e. e \<noteq> entryID \<longrightarrow> isProcessed (processedEmails s1) e \<longrightarrow> deliveredOnce s1 e"
  shows "cacheSound (deliverEmail net cfg entryID message chatID s1)"
proof -
  let ?s' = "deliverEmail net cfg entryID message chatID s1"
  let ?r = "fst (sendTelegramMessage net cfg message chatID)"
  have att: "attempts ?s' = attempts s1 @ [(entryID, message, chatID, ?r)]"
    by (rule deliverEmail_attempts)
  have "deliveredOnce ?s' e" if p: "isProcessed (processedEmails ?s') e" for e
  proof (cases "e = entryID")
    case True
    with p have "?r = None"
      by (auto simp: deliverEmail_cache isProcessed_upd split: if_splits)
    with att True show ?thesis by (simp add: deliveredOnce_def)
  next
    case False
    with p have "isProcessed (processedEmails s1) e"
      by (auto simp: deliverEmail_cache isProcessed_upd split: if_splits)
    with assms False have "deliveredOnce s1 e" by blast
    then show ?thesis using att by (rule deliveredOnce_append)
  qed
  then show ?thesis by (simp add: cacheSound_def)
qed

lemma processEmail_sound:
  assumes "cacheSound s" and "processEmail net sf cfg item folderName s = (Returned, s')"
  shows "cacheSound s'"
proof -
  from prepareEmail_result [of sf cfg item folderName s]
  consider (skip) "prepareEmail sf cfg item folderName s = (Skip, s)"
    | (crash) p s1 where "prepareEmail sf cfg item folderName s = (Crash p, s1)"
    | (ready) entryID message chatID where
        "prepareEmail sf cfg item folderName s
           = (Ready entryID message chatID,
              s\<lparr>processedEmails := (processedEmails s)(entryID \<mapsto> True)\<rparr>)"
    by (metis prod.collapse)
  then show ?thesis
  proof cases
    case skip
    with assms show ?thesis by (simp add: processEmail_def)
  next
    case crash
    with assms(2) show ?thesis by (simp add: processEmail_def)
  next
    case ready
    let ?s1 = "s\<lparr>processedEmails := (processedEmails s)(entryID \<mapsto> True)\<rparr>"
    from ready assms(2) have s': "s' = deliverEmail net cfg entryID message chatID ?s1"
      by (simp add: processEmail_def)
    have "\<forall>e. e \<noteq> entryID \<longrightarrow> isProcessed (processedEmails ?s1) e \<longrightarrow> deliveredOnce ?s1 e"
      using assms(1) by (simp add: cacheSound_def isProcessed_upd deliveredOnce_def)
    then show ?thesis unfolding s' by (rule deliverEmail_sound)
  qed
qed

lemma processItems_sound:
  "cacheSound s \<Longrightarrow> processItems net sf cfg items folderName s = (Returned, s') \<Longrightarrow>
   cacheSound s'"
proof (induction items arbitrary: s)
  case Nil
  then show ?case by simp
next
  case (Cons item items)
  obtain e s1 where p: "processEmail net sf cfg item folderName s = (e, s1)"
    by (cases "processEmail net sf cfg item folderName s")
  with Cons.prems(2) have e: "e = Returned"
    and r: "processItems net sf cfg items folderName s1 = (Returned, s')"
    by (auto split: ending.splits)
  from processEmail_sound [OF Cons.prems(1)] p e have "cacheSound s1" by simp
  from Cons.IH [OF this r] show ?case .
qed

text \<open>
  C2, as stated: fails. processEmail sets the entry to \<open>true\<close> before it attempts the
  delivery: on a fresh cache, at the point where \<^verbatim>\<open>sendTelegramMessage\<close> is about to be
  called for \<open>mail1\<close>, its identity is marked delivered and no attempt has been made at
  all.
\<close>

theorem prepareEmail_marks_before_delivery_counterexample:
  "prepareEmail asciiFold cfgPlain mail1 (asc ''Invoices'') fresh
     = (Ready (asc ''ID1'') message1 (asc ''42''),
        \<lparr>processedEmails = [asc ''ID1'' \<mapsto> True], attempts = []\<rparr>)
   \<and> isProcessed [asc ''ID1'' \<mapsto> True] (asc ''ID1'')
   \<and> \<not> deliveredOnce \<lparr>processedEmails = [asc ''ID1'' \<mapsto> True], attempts = []\<rparr> (asc ''ID1'')"
  by (simp add: prepareEmail_def mail1_def fresh_def message1_def lookupFolderConfig_def
        cfgPlain_def cfgCut_def isProcessed_def deliveredOnce_def Let_def fmt_eval)

text \<open>
  C2 (amended): processEmail marks an identity delivered before the delivery attempt, so
  the entry is \<open>true\<close> while the attempt is under way. Whenever processEmail returns,
  and so whenever the item loop of a folder returns, the cache is sound again provided
  it was before: every identity marked delivered has had an attempt that returned
  success.
\<close>

theorem processEmail_keeps_cache_sound:
  "(prepareEmail sf cfg item folderName s = (Ready entryID message chatID, s1) \<longrightarrow>
      isProcessed (processedEmails s1) entryID \<and> attempts s1 = attempts s)
   \<and> (cacheSound s \<and> processEmail net sf cfg item folderName s = (Returned, s') \<longrightarrow>
        cacheSound s')
   \<and> (cacheSound s \<and> processItems net sf cfg items folderName s = (Returned, s'') \<longrightarrow>
        cacheSound s'')"
proof -
  have a: "prepareEmail sf cfg item folderName s = (Ready entryID message chatID, s1) \<longrightarrow>
      isProcessed (processedEmails s1) entryID \<and> attempts s1 = attempts s"
  proof
    assume r: "prepareEmail sf cfg item folderName s = (Ready entryID message chatID, s1)"
    with prepareEmail_result [of sf cfg item folderName s]
    have "s1 = s\<lparr>processedEmails := (processedEmails s)(entryID \<mapsto> True)\<rparr>" by auto
    then show "isProcessed (processedEmails s1) entryID \<and> attempts s1 = attempts s"
      by (simp add: isProcessed_upd)
  qed
  from a processEmail_sound processItems_sound show ?thesis by blast
qed

lemmas pe_eval = processEmail_def prepareEmail_def deliverEmail_def sendTelegramMessage_def
  postJSON_def mail1_def fresh_def message1_def lookupFolderConfig_def cfgPlain_def cfgCut_def
  isProcessed_def Let_def

text \<open>
  A run: \<open>mail1\<close> delivered with status 200 on a fresh cache, alone and twice in a row
  (the second time it is skipped).
\<close>

theorem processEmail_keeps_cache_sound_witness:
  "prepareEmail asciiFold cfgPlain mail1 (asc ''Invoices'') fresh
     = (Ready (asc ''ID1'') message1 (asc ''42''),
        \<lparr>processedEmails = [asc ''ID1'' \<mapsto> True], attempts = []\<rparr>)
   \<and> cacheSound fresh
   \<and> processEmail (netAnswering 200 (asc ''ok'')) asciiFold cfgPlain mail1 (asc ''Invoices'') fresh
     = (Returned, \<lparr>processedEmails = [asc ''ID1'' \<mapsto> True],
                   attempts = [(asc ''ID1'', message1, asc ''42'', None)]\<rparr>)
   \<and> cacheSound \<lparr>processedEmails = [asc ''ID1'' \<mapsto> True],
                  attempts = [(asc ''ID1'', message1, asc ''42'', None)]\<rparr>
   \<and> processItems (netAnswering 200 (asc ''ok'')) asciiFold cfgPlain [mail1, mail1]
        (asc ''Invoices'') fresh
     = (Returned, \<lparr>processedEmails = [asc ''ID1'' \<mapsto> True],
                   attempts = [(asc ''ID1'', message1, asc ''42'', None)]\<rparr>)"
proof -
  let ?net = "netAnswering 200 (asc ''ok'')"
  let ?s1 = "\<lparr>processedEmails = [asc ''ID1'' \<mapsto> True], attempts = []\<rparr>"
  let ?s' = "\<lparr>processedEmails = [asc ''ID1'' \<mapsto> True],
              attempts = [(asc ''ID1'', message1, asc ''42'', None)]\<rparr>"
  have h0: "prepareEmail asciiFold cfgPlain mail1 (asc ''Invoices'') fresh
     = (Ready (asc ''ID1'') message1 (asc ''42''), ?s1)"
    by (simp add: pe_eval fmt_eval)
  have h1: "cacheSound fresh"
    by (simp add: cacheSound_def fresh_def isProcessed_def)
  have h2: "processEmail ?net asciiFold cfgPlain mail1 (asc ''Invoices'') fresh = (Returned, ?s')"
    by (simp add: pe_eval fmt_eval net_eval)
  have h2': "processEmail ?net asciiFold cfgPlain mail1 (asc ''Invoices'') ?s' = (Returned, ?s')"
    by (simp add: pe_eval asc_def)
  have h3: "processItems ?net asciiFold cfgPlain [mail1, mail1] (asc ''Invoices'') fresh
              = (Returned, ?s')"
    by (simp add: h2 h2')
  from processEmail_keeps_cache_sound
         [of asciiFold cfgPlain mail1 "asc ''Invoices''" fresh "asc ''ID1''" message1
             "asc ''42''" ?s1 ?net ?s' "[mail1, mail1]" ?s'] h0 h1 h2 h3
  have "cacheSound ?s'" by blast
  with h0 h1 h2 h3 show ?thesis by blast
qed

text \<open>
  A remark on the panic path: when a \<^verbatim>\<open>MustGetProperty\<close> read panics, the mark set
  just before stays, although no delivery was attempted.
\<close>

lemma processEmail_panic_keeps_mark:
  "processEmail net asciiFold cfgPlain (mail1\<lparr>Subject := None\<rparr>) (asc ''Invoices'') fresh
     = (Panicked OlePanic, \<lparr>processedEmails = [asc ''ID1'' \<mapsto> True], attempts = []\<rparr>)"
  by (simp add: pe_eval)

text \<open>
  C1: for an item with identity token \<open>entryID\<close>. While the entry is marked delivered,
  processEmail returns at once: the state, and with it the list of attempts, is
  unchanged. Otherwise, for a readable item, the call makes exactly one attempt; any
  attempt the call makes that fails leaves the entry \<open>false\<close> (and one that succeeds
  leaves it \<open>true\<close>); and after a failed attempt, a later call for the same item, whatever
  the network then answers, makes exactly one attempt more.
\<close>

theorem processEmail_dedup_and_rollback:
  assumes "EntryID item = Some entryID"
  shows
    "(isProcessed (processedEmails s) entryID \<longrightarrow>
        processEmail net sf cfg item folderName s = (Returned, s))
     \<and> (\<not> isProcessed (processedEmails s) entryID \<and> readable item \<longrightarrow>
          (\<exists>message chatID.
             processEmail net sf cfg item folderName s
               = (Returned, deliverEmail net cfg entryID message chatID
                    (s\<lparr>processedEmails := (processedEmails s)(entryID \<mapsto> True)\<rparr>))
             \<and> attempts (snd (processEmail net sf cfg item folderName s))
                 = attempts s @ [(entryID, message, chatID,
                                  fst (sendTelegramMessage net cfg message chatID))]))
     \<and> (\<forall>a. attempts (snd (processEmail net sf cfg item folderName s)) = attempts s @ [a] \<longrightarrow>
           fst a = entryID
           \<and> (snd (snd (snd a)) \<noteq> None \<longrightarrow>
                processedEmails (snd (processEmail net sf cfg item folderName s)) entryID
                  = Some False)
           \<and> (snd (snd (snd a)) = None \<longrightarrow>
                processedEmails (snd (processEmail net sf cfg item folderName s)) entryID
                  = Some True))
     \<and> (\<forall>a. attempts (snd (processEmail net sf cfg item folderName s)) = attempts s @ [a]
              \<and> snd (snd (snd a)) \<noteq> None \<longrightarrow>
           (\<exists>a'. attempts (snd (processEmail net' sf cfg item folderName
                                  (snd (processEmail net sf cfg item folderName s))))
                   = attempts s @ [a, a'] \<and> fst a' = entryID))"
proof -
  let ?P = "processEmail net sf cfg item folderName s"
  let ?s1 = "s\<lparr>processedEmails := (processedEmails s)(entryID \<mapsto> True)\<rparr>"
  have A: "isProcessed (processedEmails s) entryID \<longrightarrow> ?P = (Returned, s)"
    using assms by (simp add: processEmail_def prepareEmail_marked)
  have one: "\<exists>message chatID.
             processEmail n sf cfg item folderName t
               = (Returned, deliverEmail n cfg entryID message chatID
                    (t\<lparr>processedEmails := (processedEmails t)(entryID \<mapsto> True)\<rparr>))
             \<and> attempts (snd (processEmail n sf cfg item folderName t))
                 = attempts t @ [(entryID, message, chatID,
                                  fst (sendTelegramMessage n cfg message chatID))]"
    if "\<not> isProcessed (processedEmails t) entryID" and "readable item" for n t
  proof -
    from prepareEmail_readable [OF assms that, of sf cfg folderName]
    obtain message chatID where
      "prepareEmail sf cfg item folderName t
         = (Ready entryID message chatID,
            t\<lparr>processedEmails := (processedEmails t)(entryID \<mapsto> True)\<rparr>)" by blast
    then show ?thesis
      by (auto simp: processEmail_def deliverEmail_attempts)
  qed
  then have B: "\<not> isProcessed (processedEmails s) entryID \<and> readable item \<longrightarrow>
          (\<exists>message chatID.
             ?P = (Returned, deliverEmail net cfg entryID message chatID ?s1)
             \<and> attempts (snd ?P)
                 = attempts s @ [(entryID, message, chatID,
                                  fst (sendTelegramMessage net cfg message chatID))])"
    by blast
  have made: "\<exists>message chatID. ?P = (Returned, deliverEmail net cfg entryID message chatID ?s1)
                \<and> readable item"
    if "attempts (snd ?P) = attempts s @ [a]" for a
  proof -
    from prepareEmail_result [of sf cfg item folderName s]
    consider (skip) "prepareEmail sf cfg item folderName s = (Skip, s)"
      | (crash) p s1 where "prepareEmail sf cfg item folderName s = (Crash p, s1)"
          "s1 = ?s1"
      | (ready) message chatID where
          "prepareEmail sf cfg item folderName s = (Ready entryID message chatID, ?s1)"
          "\<not> isProcessed (processedEmails s) entryID"
      using assms by (metis option.inject prod.collapse)
    then show ?thesis
    proof cases
      case skip
      with that show ?thesis by (simp add: processEmail_def)
    next
      case crash
      with that show ?thesis by (simp add: processEmail_def)
    next
      case ready
      from prepareEmail_unmarked [OF assms ready(2), of sf cfg folderName] ready(1)
      have "readable item" by auto
      with ready(1) show ?thesis by (auto simp add: processEmail_def)
    qed
  qed
  have C: "\<forall>a. attempts (snd ?P) = attempts s @ [a] \<longrightarrow>
           fst a = entryID
           \<and> (snd (snd (snd a)) \<noteq> None \<longrightarrow> processedEmails (snd ?P) entryID = Some False)
           \<and> (snd (snd (snd a)) = None \<longrightarrow> processedEmails (snd ?P) entryID = Some True)"
  proof (intro allI impI)
    fix a assume a: "attempts (snd ?P) = attempts s @ [a]"
    from made [OF a] obtain message chatID
      where p: "?P = (Returned, deliverEmail net cfg entryID message chatID ?s1)" by blast
    from a p have "a = (entryID, message, chatID, fst (sendTelegramMessage net cfg message chatID))"
      by (simp add: deliverEmail_attempts)
    then show "fst a = entryID
           \<and> (snd (snd (snd a)) \<noteq> None \<longrightarrow> processedEmails (snd ?P) entryID = Some False)
           \<and> (snd (snd (snd a)) = None \<longrightarrow> processedEmails (snd ?P) entryID = Some True)"
      using p by (simp add: deliverEmail_cache)
  qed
  have D: "\<forall>a. attempts (snd ?P) = attempts s @ [a] \<and> snd (snd (snd a)) \<noteq> None \<longrightarrow>
           (\<exists>a'. attempts (snd (processEmail net' sf cfg item folderName (snd ?P)))
                   = attempts s @ [a, a'] \<and> fst a' = entryID)"
  proof (intro allI impI, elim conjE)
    fix a assume a: "attempts (snd ?P) = attempts s @ [a]" and f: "snd (snd (snd a)) \<noteq> None"
    from made [OF a] have r: "readable item" by blast
    from C a f have "processedEmails (snd ?P) entryID = Some False" by blast
    then have "\<not> isProcessed (processedEmails (snd ?P)) entryID"
      by (simp add: isProcessed_def)
    from one [OF this r, of net'] a
    show "\<exists>a'. attempts (snd (processEmail net' sf cfg item folderName (snd ?P)))
                   = attempts s @ [a, a'] \<and> fst a' = entryID"
      by auto
  qed
  from A B C D show ?thesis by blast
qed

text \<open>
  The scenario of the specification: the delivery of \<open>mail1\<close> is answered with status
  429, so its entry goes back to \<open>false\<close>; on the next cycle the server answers 200,
  one more attempt is made and the entry stays \<open>true\<close>; from then on the item is skipped.
\<close>

theorem processEmail_dedup_and_rollback_witness:
  "EntryID mail1 = Some (asc ''ID1'') \<and> readable mail1
   \<and> \<not> isProcessed (processedEmails fresh) (asc ''ID1'')
   \<and> processEmail (netAnswering 429 (asc ''slow'')) asciiFold cfgPlain mail1 (asc ''Invoices'') fresh
     = (Returned,
        \<lparr>processedEmails = [asc ''ID1'' \<mapsto> False],
         attempts = [(asc ''ID1'', message1, asc ''42'', Some (BadStatus 429 (asc ''slow'')))]\<rparr>)
   \<and> processEmail (netAnswering 200 (asc ''ok'')) asciiFold cfgPlain mail1 (asc ''Invoices'')
        \<lparr>processedEmails = [asc ''ID1'' \<mapsto> False],
         attempts = [(asc ''ID1'', message1, asc ''42'', Some (BadStatus 429 (asc ''slow'')))]\<rparr>
     = (Returned,
        \<lparr>processedEmails = [asc ''ID1'' \<mapsto> True],
         attempts = [(asc ''ID1'', message1, asc ''42'', Some (BadStatus 429 (asc ''slow''))),
                     (asc ''ID1'', message1, asc ''42'', None)]\<rparr>)
   \<and> processEmail (netAnswering 200 (asc ''ok'')) asciiFold cfgPlain mail1 (asc ''Invoices'')
        \<lparr>processedEmails = [asc ''ID1'' \<mapsto> True],
         attempts = [(asc ''ID1'', message1, asc ''42'', Some (BadStatus 429 (asc ''slow''))),
                     (asc ''ID1'', message1, asc ''42'', None)]\<rparr>
     = (Returned,
        \<lparr>processedEmails = [asc ''ID1'' \<mapsto> True],
         attempts = [(asc ''ID1'', message1, asc ''42'', Some (BadStatus 429 (asc ''slow''))),
                     (asc ''ID1'', message1, asc ''42'', None)]\<rparr>)"
proof -
  let ?bad = "(asc ''ID1'', message1, asc ''42'', Some (BadStatus 429 (asc ''slow'')))"
  let ?good = "(asc ''ID1'', message1, asc ''42'', None :: sendError option)"
  let ?s1 = "\<lparr>processedEmails = [asc ''ID1'' \<mapsto> False], attempts = [?bad]\<rparr>"
  let ?s2 = "\<lparr>processedEmails = [asc ''ID1'' \<mapsto> True], attempts = [?bad, ?good]\<rparr>"
  let ?n429 = "netAnswering 429 (asc ''slow'')"
  let ?n200 = "netAnswering 200 (asc ''ok'')"
  have h: "EntryID mail1 = Some (asc ''ID1'')" by (simp add: mail1_def)
  have r: "readable mail1" by (simp add: readable_def mail1_def)
  have u: "\<not> isProcessed (processedEmails fresh) (asc ''ID1'')"
    by (simp add: fresh_def isProcessed_def)
  have p1: "processEmail ?n429 asciiFold cfgPlain mail1 (asc ''Invoices'') fresh = (Returned, ?s1)"
    by (simp add: pe_eval fmt_eval net_eval)
  have p2: "processEmail ?n200 asciiFold cfgPlain mail1 (asc ''Invoices'') ?s1 = (Returned, ?s2)"
    by (simp add: pe_eval fmt_eval net_eval)
  have m: "isProcessed (processedEmails ?s2) (asc ''ID1'')"
    by (simp add: isProcessed_def)
  from processEmail_dedup_and_rollback
         [OF h, of ?s2 ?n200 asciiFold cfgPlain "asc ''Invoices''" ?n200] m
  have p3: "processEmail ?n200 asciiFold cfgPlain mail1 (asc ''Invoices'') ?s2 = (Returned, ?s2)"
    by blast
  from h r u p1 p2 p3 show ?thesis by blast
qed

section \<open>Theorems about folder resolution\<close>

lemma find_append:
  "List.find P (xs @ ys) = (case List.find P xs of None \<Rightarrow> List.find P ys | Some x \<Rightarrow> Some x)"
  by (induction xs) simp_all

lemma findFolderRecursive_result:
  "fst (findFolderRecursive folders target) =
     (case List.find (\<lambda>f. mapiName f = target) (preorder folders) of
        None \<Rightarrow> Inl (FolderNotFound target)
      | Some f \<Rightarrow> Inr f)"
proof (induction folders target rule: findFolderRecursive.induct)
  case (1 target)
  show ?case by simp
next
  case (2 currentName children rest target)
  show ?case
  proof (cases "currentName = target")
    case True
    then show ?thesis by simp
  next
    case False
    note IH1 = "2.IH"(1) [OF False]
    show ?thesis
    proof (cases "findFolderRecursive children target")
      case (Pair r seen)
      show ?thesis
      proof (cases r)
        case (Inr subFolder)
        with Pair IH1 False show ?thesis
          by (simp add: find_append split: option.splits)
      next
        case (Inl err)
        note IH2 = "2.IH"(2) [OF False Pair [symmetric] Inl]
        from Pair Inl IH1 IH2 False show ?thesis
          by (cases "findFolderRecursive rest target")
             (auto simp add: find_append split: option.splits)
      qed
    qed
  qed
qed

lemma length_takeWhile_stops:
  "x \<in> set xs \<Longrightarrow> \<not> P x \<Longrightarrow> length (takeWhile P xs) < length xs"
  by (induction xs) auto

lemma findFolderRecursive_seen:
  "snd (findFolderRecursive folders target) =
     take (Suc (length (takeWhile (\<lambda>f. mapiName f \<noteq> target) (preorder folders))))
       (preorder folders)"
proof (induction folders target rule: findFolderRecursive.induct)
  case (1 target)
  show ?case by simp
next
  case (2 currentName children rest target)
  show ?case
  proof (cases "currentName = target")
    case True
    then show ?thesis by simp
  next
    case False
    note IH1 = "2.IH"(1) [OF False]
    have res: "fst (findFolderRecursive children target) =
       (case List.find (\<lambda>f. mapiName f = target) (preorder children) of
          None \<Rightarrow> Inl (FolderNotFound target) | Some f \<Rightarrow> Inr f)"
      by (rule findFolderRecursive_result)
    show ?thesis
    proof (cases "findFolderRecursive children target")
      case (Pair r seen)
      show ?thesis
      proof (cases r)
        case (Inr subFolder)
        with Pair res obtain f where "List.find (\<lambda>f. mapiName f = target) (preorder children) = Some f"
          by (auto split: option.splits)
        then have "\<not> (\<forall>x \<in> set (preorder children). mapiName x \<noteq> target)"
          using find_None_iff [of "\<lambda>f. mapiName f = target" "preorder children"] by auto
        then have ex: "\<exists>x \<in> set (preorder children). \<not> mapiName x \<noteq> target"
          by blast
        then obtain x where x: "x \<in> set (preorder children)" "\<not> mapiName x \<noteq> target"
          by blast
        have "takeWhile (\<lambda>f. mapiName f \<noteq> target) (preorder children @ preorder rest)
                 = takeWhile (\<lambda>f. mapiName f \<noteq> target) (preorder children)"
          using x by (rule takeWhile_append1)
        moreover have "length (takeWhile (\<lambda>f. mapiName f \<noteq> target) (preorder children))
                         < length (preorder children)"
          using x by (rule length_takeWhile_stops)
        ultimately show ?thesis using Pair Inr IH1 False by simp
      next
        case (Inl err)
        note IH2 = "2.IH"(2) [OF False Pair [symmetric] Inl]
        from Pair Inl res have "List.find (\<lambda>f. mapiName f = target) (preorder children) = None"
          by (auto split: option.splits)
        then have all: "\<forall>x \<in> set (preorder children). mapiName x \<noteq> target"
          by (simp add: find_None_iff)
        then have tw: "takeWhile (\<lambda>f. mapiName f \<noteq> target) (preorder children @ preorder rest)
                 = preorder children @ takeWhile (\<lambda>f. mapiName f \<noteq> target) (preorder rest)"
          by (intro takeWhile_append2) blast
        from all have "takeWhile (\<lambda>f. mapiName f \<noteq> target) (preorder children) = preorder children"
          by simp
        with IH1 Pair have seen: "seen = preorder children" by simp
        from Pair Inl IH2 False tw seen show ?thesis
          by (cases "findFolderRecursive rest target") auto
      qed
    qed
  qed
qed

text \<open>
  C6, as stated: fails where the claim has the search recurse into children only when no
  child at the current level matches. In \<open>mailbox\<close> the second top-level folder is called
  \<^verbatim>\<open>Reports\<close>, yet the search for that name goes into \<^verbatim>\<open>Archive\<close>, the first one, and
  returns the \<^verbatim>\<open>Reports\<close> folder it finds there; the level-first search of the claim
  returns the top-level one.
\<close>

theorem getFolder_level_first_counterexample:
  "getFolder mailbox (asc ''Reports'') = (Inr innerReports, [archive, innerReports])
   \<and> mapiName topReports = asc ''Reports''
   \<and> levelFirstSearch (nsFolders mailbox) (asc ''Reports'') = Inr topReports
   \<and> innerReports \<noteq> topReports"
  by (simp add: mailbox_def archive_def innerReports_def topReports_def inboxName_def
        getFolder_def asc_def)

text \<open>
  C6 (amended): the inbox name gives the provider's default folder (number 6) at once,
  with no folder fetched. Any other name is searched depth-first in pre-order from the
  namespace root: the children are fetched in the provider's order, the name of each is
  compared for exact equality, and when it differs the subtree of that child is searched
  at once, before its next sibling is looked at. The folders fetched are the pre-order
  up to and including the first folder of that name, which is the folder returned;
  \<open>FolderNotFound\<close> is returned exactly when no folder of the tree has the name.
\<close>

theorem getFolder_resolution:
  "getFolder ns inboxName = (Inr (GetDefaultFolder ns 6), [])
   \<and> (name \<noteq> inboxName \<longrightarrow>
        fst (getFolder ns name)
          = (case List.find (\<lambda>f. mapiName f = name) (preorder (nsFolders ns)) of
               None \<Rightarrow> Inl (FolderNotFound name)
             | Some f \<Rightarrow> Inr f)
        \<and> snd (getFolder ns name)
          = take (Suc (length (takeWhile (\<lambda>f. mapiName f \<noteq> name) (preorder (nsFolders ns)))))
              (preorder (nsFolders ns))
        \<and> (fst (getFolder ns name) = Inl (FolderNotFound name)
             \<longleftrightarrow> (\<forall>f \<in> set (preorder (nsFolders ns)). mapiName f \<noteq> name))
        \<and> (\<forall>f. fst (getFolder ns name) = Inr f \<longrightarrow>
               f \<in> set (preorder (nsFolders ns)) \<and> mapiName f = name))"
proof -
  let ?po = "preorder (nsFolders ns)"
  let ?found = "List.find (\<lambda>f. mapiName f = name) ?po"
  have a: "getFolder ns inboxName = (Inr (GetDefaultFolder ns 6), [])"
    by (simp add: getFolder_def)
  have b: "fst (getFolder ns name)
             = (case ?found of None \<Rightarrow> Inl (FolderNotFound name) | Some f \<Rightarrow> Inr f)"
    if "name \<noteq> inboxName"
    using that by (simp add: getFolder_def findFolderRecursive_result)
  have c: "snd (getFolder ns name)
             = take (Suc (length (takeWhile (\<lambda>f. mapiName f \<noteq> name) ?po))) ?po"
    if "name \<noteq> inboxName"
    using that by (simp add: getFolder_def findFolderRecursive_seen)
  have d: "fst (getFolder ns name) = Inl (FolderNotFound name)
             \<longleftrightarrow> (\<forall>f \<in> set ?po. mapiName f \<noteq> name)"
    if n: "name \<noteq> inboxName"
  proof (cases ?found)
    case None
    with b [OF n] show ?thesis by (simp add: find_None_iff)
  next
    case (Some f)
    then have "\<not> (\<forall>f \<in> set ?po. mapiName f \<noteq> name)"
      using find_None_iff [of "\<lambda>f. mapiName f = name" ?po] by auto
    with Some b [OF n] show ?thesis by simp
  qed
  have e: "f \<in> set ?po \<and> mapiName f = name"
    if n: "name \<noteq> inboxName" and r: "fst (getFolder ns name) = Inr f" for f
  proof -
    from b [OF n] r have "?found = Some f" by (simp split: option.splits)
    then show ?thesis by (metis (mono_tags, lifting) find_Some_iff nth_mem)
  qed
  from a b c d e show ?thesis by blast
qed

text \<open>
  Runs on \<open>mailbox\<close>: the inbox; the name \<^verbatim>\<open>Old\<close>, found below \<^verbatim>\<open>Archive\<close> after
  three folders were fetched; the name \<^verbatim>\<open>reports\<close>, which differs in case from both
  folders \<^verbatim>\<open>Reports\<close> and is not found after all four folders were fetched.
\<close>

theorem getFolder_resolution_witness:
  "getFolder mailbox inboxName = (Inr (MAPIFolder inboxName []), [])
   \<and> asc ''Old'' \<noteq> inboxName
   \<and> getFolder mailbox (asc ''Old'')
       = (Inr (MAPIFolder (asc ''Old'') []),
          [archive, innerReports, MAPIFolder (asc ''Old'') []])
   \<and> asc ''reports'' \<noteq> inboxName
   \<and> getFolder mailbox (asc ''reports'')
       = (Inl (FolderNotFound (asc ''reports'')),
          [archive, innerReports, MAPIFolder (asc ''Old'') [], topReports])"
proof -
  have n1: "asc ''Old'' \<noteq> inboxName" by (simp add: asc_def inboxName_def)
  have n2: "asc ''reports'' \<noteq> inboxName" by (simp add: asc_def inboxName_def)
  have po: "preorder (nsFolders mailbox)
              = [archive, innerReports, MAPIFolder (asc ''Old'') [], topReports]"
    by (simp add: mailbox_def archive_def innerReports_def topReports_def)
  have names: "mapiName archive = asc ''Archive''" "mapiName innerReports = asc ''Reports''"
    "mapiName topReports = asc ''Reports''"
    by (simp_all add: archive_def innerReports_def topReports_def)
  have i: "getFolder mailbox inboxName = (Inr (MAPIFolder inboxName []), [])"
    using getFolder_resolution [of mailbox inboxName] by (simp add: mailbox_def)
  from getFolder_resolution [of mailbox "asc ''Old''"] n1
  have "fst (getFolder mailbox (asc ''Old'')) = Inr (MAPIFolder (asc ''Old'') [])"
    and "snd (getFolder mailbox (asc ''Old''))
           = [archive, innerReports, MAPIFolder (asc ''Old'') []]"
    by (simp_all add: po names asc_def)
  then have o: "getFolder mailbox (asc ''Old'')
       = (Inr (MAPIFolder (asc ''Old'') []),
          [archive, innerReports, MAPIFolder (asc ''Old'') []])"
    by (simp add: prod_eq_iff)
  from getFolder_resolution [of mailbox "asc ''reports''"] n2
  have "fst (getFolder mailbox (asc ''reports'')) = Inl (FolderNotFound (asc ''reports''))"
    and "snd (getFolder mailbox (asc ''reports''))
           = [archive, innerReports, MAPIFolder (asc ''Old'') [], topReports]"
    by (simp_all add: po names asc_def)
  then have r: "getFolder mailbox (asc ''reports'')
       = (Inl (FolderNotFound (asc ''reports'')),
          [archive, innerReports, MAPIFolder (asc ''Old'') [], topReports])"
    by (simp add: prod_eq_iff)
  from i n1 o n2 r show ?thesis by blast
qed

section \<open>Theorems about the scheduler\<close>

subsection \<open>The duration of the sleep\<close>

lemma nanoseconds_in_range:
  assumes "- 9223372036 \<le> x" and "x \<le> 9223372036"
  shows "sint ((word_of_int x :: 64 word) * 1000000000) = x * 1000000000"
proof -
  have eq: "(word_of_int x :: 64 word) * 1000000000 = word_of_int (x * 1000000000)"
    by simp
  have st: "signed_take_bit 63 (x * 1000000000) = x * 1000000000"
    using assms by (intro signed_take_bit_int_eq_self) simp_all
  show ?thesis
    unfolding eq by (subst sint_sbintrunc') (simp add: st)
qed

lemma waitNextCheck_default:
  "CheckIntervalSeconds cfg \<le> 0 \<Longrightarrow> waitNextCheck cfg = 10 * 1000000000"
  by (simp add: waitNextCheck_def)

lemma waitNextCheck_configured:
  "0 < CheckIntervalSeconds cfg \<Longrightarrow> CheckIntervalSeconds cfg \<le> 9223372036 \<Longrightarrow>
   waitNextCheck cfg = CheckIntervalSeconds cfg * 1000000000"
  by (simp add: waitNextCheck_def nanoseconds_in_range)

subsection \<open>Invariants of the transition system\<close>

lemma count_update:
  "i < length xs \<Longrightarrow>
   length (filter P (xs[i := y])) + (if P (xs ! i) then 1 else 0)
     = length (filter P xs) + (if P y then 1 else 0)"
proof (induction xs arbitrary: i)
  case Nil
  then show ?case by simp
next
  case (Cons x xs)
  show ?case
  proof (cases i)
    case 0
    then show ?thesis by simp
  next
    case (Suc j)
    with Cons.prems have "j < length xs" by simp
    from Cons.IH [OF this] Suc show ?thesis by simp
  qed
qed

lemma inFlight_update:
  "i < length (tasks s) \<Longrightarrow>
   cyclesInFlight (s\<lparr>tasks := (tasks s)[i := y]\<rparr>) + (if inFlight (tasks s ! i) then 1 else 0)
     = cyclesInFlight s + (if inFlight y then 1 else 0)"
  by (simp add: cyclesInFlight_def count_update)

lemma cyclesInFlight_fields [simp]:
  "cyclesInFlight (s\<lparr>semaphore := n\<rparr>) = cyclesInFlight s"
  "cyclesInFlight (s\<lparr>at := a\<rparr>) = cyclesInFlight s"
  "cyclesInFlight (s\<lparr>slept := d\<rparr>) = cyclesInFlight s"
  by (simp_all add: cyclesInFlight_def)

lemma step_Release:
  "step cfg (Release i) s = Some s' \<Longrightarrow>
   i < length (tasks s) \<and> 0 < semaphore s
   \<and> (\<exists>b. tasks s ! i = InDeferred b
         \<and> s' = s\<lparr>semaphore := semaphore s - 1,
                    tasks := (tasks s)[i := (case b of Normally \<Rightarrow> Finished
                                              | Panicking \<Rightarrow> InRecover)]\<rparr>)"
  by (auto split: if_splits task.splits bodyEnd.splits)

lemma step_accounted:
  assumes "slotsAccounted s" and "step cfg e s = Some s'"
  shows "slotsAccounted s'"
proof (cases e)
  case Acquire
  with assms show ?thesis
    by (auto simp: slotsAccounted_def split: if_splits)
next
  case Spawn
  with assms show ?thesis
    by (auto simp: slotsAccounted_def cyclesInFlight_def split: if_splits)
next
  case Sleep
  with assms show ?thesis
    by (auto simp: slotsAccounted_def split: if_splits)
next
  case (BodyReturns i)
  with assms(2) have i: "i < length (tasks s)" "tasks s ! i = InBody"
    and s': "s' = s\<lparr>tasks := (tasks s)[i := InDeferred Normally]\<rparr>"
    by (auto split: if_splits)
  from inFlight_update [OF i(1), of "InDeferred Normally"] i(2)
  have "cyclesInFlight s' = cyclesInFlight s" by (simp add: s')
  with assms(1) show ?thesis by (simp add: slotsAccounted_def s')
next
  case (BodyPanics i)
  with assms(2) have i: "i < length (tasks s)" "tasks s ! i = InBody"
    and s': "s' = s\<lparr>tasks := (tasks s)[i := InDeferred Panicking]\<rparr>"
    by (auto split: if_splits)
  from inFlight_update [OF i(1), of "InDeferred Panicking"] i(2)
  have "cyclesInFlight s' = cyclesInFlight s" by (simp add: s')
  with assms(1) show ?thesis by (simp add: slotsAccounted_def s')
next
  case (Release i)
  with assms(2) have "step cfg (Release i) s = Some s'" by simp
  from step_Release [OF this] obtain b where i: "i < length (tasks s)" "tasks s ! i = InDeferred b"
    and pos: "0 < semaphore s"
    and sb: "s' = s\<lparr>semaphore := semaphore s - 1,
                    tasks := (tasks s)[i := (case b of Normally \<Rightarrow> Finished
                                              | Panicking \<Rightarrow> InRecover)]\<rparr>"
    by blast
  define y where "y = (case b of Normally \<Rightarrow> Finished | Panicking \<Rightarrow> InRecover)"
  have y: "\<not> inFlight y" by (cases b) (simp_all add: y_def)
  from sb have s': "s' = s\<lparr>semaphore := semaphore s - 1, tasks := (tasks s)[i := y]\<rparr>"
    by (simp add: y_def)
  from inFlight_update [OF i(1), of y] i(2) y
  have "cyclesInFlight (s\<lparr>tasks := (tasks s)[i := y]\<rparr>) + 1 = cyclesInFlight s" by simp
  moreover have "cyclesInFlight s' = cyclesInFlight (s\<lparr>tasks := (tasks s)[i := y]\<rparr>)"
    by (simp add: s' cyclesInFlight_def)
  ultimately show ?thesis using assms(1) pos by (auto simp: slotsAccounted_def s')
next
  case (Recover i)
  with assms(2) have i: "i < length (tasks s)" "tasks s ! i = InRecover"
    and s': "s' = s\<lparr>tasks := (tasks s)[i := Finished]\<rparr>"
    by (auto split: if_splits)
  from inFlight_update [OF i(1), of Finished] i(2)
  have "cyclesInFlight s' = cyclesInFlight s" by (simp add: s')
  with assms(1) show ?thesis by (simp add: slotsAccounted_def s')
qed

lemma run_accounted:
  "slotsAccounted s \<Longrightarrow> run cfg es s = Some s' \<Longrightarrow> slotsAccounted s'"
proof (induction es arbitrary: s)
  case Nil
  then show ?case by simp
next
  case (Cons e es)
  from Cons.prems(2) obtain s1 where s1: "step cfg e s = Some s1" "run cfg es s1 = Some s'"
    by (auto split: option.splits)
  from step_accounted [OF Cons.prems(1) s1(1)] have "slotsAccounted s1" .
  from Cons.IH [OF this s1(2)] show ?case .
qed

lemma initial_accounted: "slotsAccounted initial"
  by (simp add: slotsAccounted_def initial_def cyclesInFlight_def)

lemma run_append:
  "run cfg (es @ es') s = (case run cfg es s of None \<Rightarrow> None | Some s1 \<Rightarrow> run cfg es' s1)"
  by (induction es arbitrary: s) (auto split: option.splits)

lemma step_slept:
  "step cfg e s = Some s' \<Longrightarrow> \<forall>d \<in> set (slept s). d = waitNextCheck cfg \<Longrightarrow>
   \<forall>d \<in> set (slept s'). d = waitNextCheck cfg"
  by (cases e) (auto split: if_splits task.splits bodyEnd.splits)

lemma run_slept:
  "run cfg es s = Some s' \<Longrightarrow> \<forall>d \<in> set (slept s). d = waitNextCheck cfg \<Longrightarrow>
   \<forall>d \<in> set (slept s'). d = waitNextCheck cfg"
proof (induction es arbitrary: s)
  case Nil
  then show ?case by simp
next
  case (Cons e es)
  from Cons.prems(1) obtain s1 where s1: "step cfg e s = Some s1" "run cfg es s1 = Some s'"
    by (auto split: option.splits)
  from step_slept [OF s1(1) Cons.prems(2)] Cons.IH [OF s1(2)] show ?case by blast
qed

subsection \<open>The single-slot guard\<close>

lemma run_two:
  "step cfg a s = Some s1 \<Longrightarrow> step cfg b s1 = Some s2 \<Longrightarrow> run cfg [a, b] s = Some s2"
  by simp

lemma run_three:
  "step cfg a s = Some s1 \<Longrightarrow> step cfg b s1 = Some s2 \<Longrightarrow> step cfg c s2 = Some s3 \<Longrightarrow>
   run cfg [a, b, c] s = Some s3"
  by simp

lemma task_ends:
  assumes acc: "slotsAccounted s" and i: "i < length (tasks s)" "tasks s ! i = InBody"
  shows "\<exists>s1. run cfg [BodyReturns i, Release i] s = Some s1
            \<and> semaphore s1 = 0 \<and> cyclesInFlight s1 = 0 \<and> tasks s1 ! i = Finished
            \<and> at s1 = at s \<and> slept s1 = slept s"
    and "\<exists>s2. run cfg [BodyPanics i, Release i, Recover i] s = Some s2
            \<and> semaphore s2 = 0 \<and> cyclesInFlight s2 = 0 \<and> tasks s2 ! i = Finished
            \<and> at s2 = at s \<and> slept s2 = slept s"
proof -
  from inFlight_update [OF i(1), of Finished] i(2)
  have "1 \<le> cyclesInFlight s" by simp
  with acc have sem: "semaphore s = 1" and fl: "cyclesInFlight s = 1"
    by (auto simp: slotsAccounted_def split: if_splits)
  let ?a = "s\<lparr>tasks := (tasks s)[i := InDeferred Normally]\<rparr>"
  let ?b = "?a\<lparr>semaphore := semaphore ?a - 1, tasks := (tasks ?a)[i := Finished]\<rparr>"
  have a: "step cfg (BodyReturns i) s = Some ?a" using i by simp
  have b: "step cfg (Release i) ?a = Some ?b" using i sem by simp
  have rb: "run cfg [BodyReturns i, Release i] s = Some ?b"
    using a b by (rule run_two)
  from run_accounted [OF acc rb] have accb: "slotsAccounted ?b" .
  have semb: "semaphore ?b = 0" using sem by simp
  with accb have "cyclesInFlight ?b = 0" by (simp add: slotsAccounted_def)
  moreover have "tasks ?b ! i = Finished" using i by simp
  ultimately show "\<exists>s1. run cfg [BodyReturns i, Release i] s = Some s1
            \<and> semaphore s1 = 0 \<and> cyclesInFlight s1 = 0 \<and> tasks s1 ! i = Finished
            \<and> at s1 = at s \<and> slept s1 = slept s"
    using rb semb by (intro exI [of _ ?b]) simp
  let ?c = "s\<lparr>tasks := (tasks s)[i := InDeferred Panicking]\<rparr>"
  let ?d = "?c\<lparr>semaphore := semaphore ?c - 1, tasks := (tasks ?c)[i := InRecover]\<rparr>"
  let ?e = "?d\<lparr>tasks := (tasks ?d)[i := Finished]\<rparr>"
  have c: "step cfg (BodyPanics i) s = Some ?c" using i by simp
  have d: "step cfg (Release i) ?c = Some ?d" using i sem by simp
  have e: "step cfg (Recover i) ?d = Some ?e" using i by simp
  have re: "run cfg [BodyPanics i, Release i, Recover i] s = Some ?e"
    using c d e by (rule run_three)
  from run_accounted [OF acc re] have acce: "slotsAccounted ?e" .
  have seme: "semaphore ?e = 0" using sem by simp
  with acce have "cyclesInFlight ?e = 0" by (simp add: slotsAccounted_def)
  moreover have "tasks ?e ! i = Finished" using i by simp
  ultimately show "\<exists>s2. run cfg [BodyPanics i, Release i, Recover i] s = Some s2
            \<and> semaphore s2 = 0 \<and> cyclesInFlight s2 = 0 \<and> tasks s2 ! i = Finished
            \<and> at s2 = at s \<and> slept s2 = slept s"
    using re seme by (intro exI [of _ ?e]) simp
qed

lemma next_cycle_starts:
  assumes acc: "slotsAccounted s" and sem: "semaphore s = 0"
  shows "\<exists>es' s3. run cfg es' s = Some s3 \<and> tasks s3 = tasks s @ [InBody]"
proof -
  from acc sem have "at s \<noteq> AtSafeGo" by (auto simp: slotsAccounted_def split: if_splits)
  then consider "at s = AtAcquire" | "at s = AtWaitNextCheck" by (cases "at s") simp_all
  then show ?thesis
  proof cases
    case 1
    with sem have "run cfg [Acquire, Spawn] s
        = Some (s\<lparr>semaphore := 1, at := AtWaitNextCheck, tasks := tasks s @ [InBody]\<rparr>)"
      by simp
    then show ?thesis
      by (intro exI [of _ "[Acquire, Spawn]"]
            exI [of _ "s\<lparr>semaphore := 1, at := AtWaitNextCheck, tasks := tasks s @ [InBody]\<rparr>"])
         simp
  next
    case 2
    with sem have "run cfg [Sleep, Acquire, Spawn] s
        = Some (s\<lparr>slept := slept s @ [waitNextCheck cfg], semaphore := 1,
                  at := AtWaitNextCheck, tasks := tasks s @ [InBody]\<rparr>)"
      by simp
    then show ?thesis
      by (intro exI [of _ "[Sleep, Acquire, Spawn]"]
            exI [of _ "s\<lparr>slept := slept s @ [waitNextCheck cfg], semaphore := 1,
                        at := AtWaitNextCheck, tasks := tasks s @ [InBody]\<rparr>"])
         simp
  qed
qed

text \<open>
  C7: in every state the scheduler reaches, at most one cycle is in flight; the channel
  holds a value only for a cycle in flight or for the loop between its send and the start
  of the task, so a task that has ended holds no slot; the send that admits a new cycle
  can be taken only when no cycle is in flight; and the deferred receive of a task whose
  body has ended can always be taken. A task in its body can end
  either way: when the body returns, the deferred receive runs; when it panics, the
  deferred receive runs and then \<^verbatim>\<open>recover()\<close> of \<^verbatim>\<open>safeGoNoLog\<close> ends the panic. Both
  ways leave the channel empty, no cycle in flight, the task finished and the loop where
  it was; and whenever the channel is empty the loop can go on to start the next task.
\<close>

theorem single_flight_guard:
  assumes "run cfg es initial = Some s"
  shows "cyclesInFlight s \<le> 1
     \<and> semaphore s = (if at s = AtSafeGo then 1 else 0) + cyclesInFlight s
     \<and> (\<forall>s'. step cfg Acquire s = Some s' \<longrightarrow> cyclesInFlight s = 0)
     \<and> (\<forall>i b. i < length (tasks s) \<and> tasks s ! i = InDeferred b \<longrightarrow>
           step cfg (Release i) s \<noteq> None)
     \<and> (\<forall>i. i < length (tasks s) \<and> tasks s ! i = InBody \<longrightarrow>
           (\<exists>s1. run cfg [BodyReturns i, Release i] s = Some s1
                \<and> semaphore s1 = 0 \<and> cyclesInFlight s1 = 0 \<and> tasks s1 ! i = Finished
                \<and> at s1 = at s \<and> slept s1 = slept s)
         \<and> (\<exists>s2. run cfg [BodyPanics i, Release i, Recover i] s = Some s2
                \<and> semaphore s2 = 0 \<and> cyclesInFlight s2 = 0 \<and> tasks s2 ! i = Finished
                \<and> at s2 = at s \<and> slept s2 = slept s))
     \<and> (semaphore s = 0 \<longrightarrow>
           (\<exists>es' s3. run cfg es' s = Some s3 \<and> tasks s3 = tasks s @ [InBody]))"
proof -
  from run_accounted [OF initial_accounted assms] have acc: "slotsAccounted s" .
  then have a: "cyclesInFlight s \<le> 1" by (auto simp: slotsAccounted_def split: if_splits)
  from acc have a': "semaphore s = (if at s = AtSafeGo then 1 else 0) + cyclesInFlight s"
    by (simp add: slotsAccounted_def)
  have b: "\<forall>s'. step cfg Acquire s = Some s' \<longrightarrow> cyclesInFlight s = 0"
    using acc by (auto simp: slotsAccounted_def split: if_splits)
  have c: "step cfg (Release i) s \<noteq> None"
    if i: "i < length (tasks s)" "tasks s ! i = InDeferred b" for i b
  proof -
    from inFlight_update [OF i(1), of Finished] i(2) have "1 \<le> cyclesInFlight s" by simp
    with a' have "0 < semaphore s" by simp
    with i show ?thesis by (cases b) simp_all
  qed
  from a a' b c task_ends [OF acc] next_cycle_starts [OF acc] show ?thesis by blast
qed

text \<open>
  A run: after the first task is started, a second send is not possible; the task
  panics, the slot is released and the panic recovered; the loop then sleeps, sends and
  starts the second task.
\<close>

theorem single_flight_guard_witness:
  "run cfgPlain [Acquire, Spawn] initial = Some firstCycleRunning
   \<and> cyclesInFlight firstCycleRunning = 1
   \<and> step cfgPlain Sleep firstCycleRunning
       = Some (firstCycleRunning\<lparr>slept := [5000000000], at := AtAcquire\<rparr>)
   \<and> step cfgPlain Acquire (firstCycleRunning\<lparr>slept := [5000000000], at := AtAcquire\<rparr>) = None
   \<and> (0::nat) < length (tasks firstCycleRunning) \<and> tasks firstCycleRunning ! 0 = InBody
   \<and> run cfgPlain [BodyPanics 0, Release 0, Recover 0] firstCycleRunning
       = Some \<lparr>semaphore = 0, at = AtWaitNextCheck, tasks = [Finished], slept = []\<rparr>
   \<and> run cfgPlain [Sleep, Acquire, Spawn]
        \<lparr>semaphore = 0, at = AtWaitNextCheck, tasks = [Finished], slept = []\<rparr>
       = Some \<lparr>semaphore = 1, at = AtWaitNextCheck, tasks = [Finished, InBody],
               slept = [5000000000]\<rparr>"
proof -
  have w: "waitNextCheck cfgPlain = 5000000000"
    by (simp add: waitNextCheck_def cfgPlain_def cfgCut_def)
  have r: "run cfgPlain [Acquire, Spawn] initial = Some firstCycleRunning"
    by (simp add: initial_def firstCycleRunning_def)
  have i: "(0::nat) < length (tasks firstCycleRunning) \<and> tasks firstCycleRunning ! 0 = InBody"
    by (simp add: firstCycleRunning_def)
  from single_flight_guard [OF r] have "cyclesInFlight firstCycleRunning \<le> 1" by blast
  moreover have "1 \<le> cyclesInFlight firstCycleRunning"
    by (simp add: cyclesInFlight_def firstCycleRunning_def)
  ultimately have c: "cyclesInFlight firstCycleRunning = 1" by simp
  have s: "step cfgPlain Sleep firstCycleRunning
       = Some (firstCycleRunning\<lparr>slept := [5000000000], at := AtAcquire\<rparr>)"
    by (simp add: firstCycleRunning_def w)
  have n: "step cfgPlain Acquire (firstCycleRunning\<lparr>slept := [5000000000], at := AtAcquire\<rparr>)
             = None"
    by (simp add: firstCycleRunning_def)
  have p: "run cfgPlain [BodyPanics 0, Release 0, Recover 0] firstCycleRunning
       = Some \<lparr>semaphore = 0, at = AtWaitNextCheck, tasks = [Finished], slept = []\<rparr>"
    by (simp add: firstCycleRunning_def)
  have q: "run cfgPlain [Sleep, Acquire, Spawn]
        \<lparr>semaphore = 0, at = AtWaitNextCheck, tasks = [Finished], slept = []\<rparr>
       = Some \<lparr>semaphore = 1, at = AtWaitNextCheck, tasks = [Finished, InBody],
               slept = [5000000000]\<rparr>"
    by (simp add: w)
  from r c s n i p q show ?thesis by blast
qed

text \<open>
  C9, as stated: fails where the claim has the sleep come after the cycle has completed.
  The loop calls \<^verbatim>\<open>waitNextCheck\<close> right after it has started the task. In this run
  with a check interval of 5 seconds the only sleep is over while the first task is
  still in its body, and once that task has ended the second one is started without any
  sleep in between.
\<close>

theorem sleep_after_completion_counterexample:
  "run cfgPlain [Acquire, Spawn, Sleep] initial
     = Some \<lparr>semaphore = 1, at = AtAcquire, tasks = [InBody], slept = [5000000000]\<rparr>
   \<and> run cfgPlain [Acquire, Spawn, Sleep, BodyReturns 0, Release 0, Acquire, Spawn] initial
     = Some \<lparr>semaphore = 1, at = AtWaitNextCheck, tasks = [Finished, InBody],
             slept = [5000000000]\<rparr>"
proof -
  have w: "waitNextCheck cfgPlain = 5000000000"
    by (simp add: waitNextCheck_def cfgPlain_def cfgCut_def)
  show ?thesis by (simp add: initial_def w)
qed

text \<open>
  C9 (amended): in every iteration the loop sleeps once, right after it has started the
  cycle task and whatever that task is doing, before it goes on to the next iteration.
  The sleep lasts exactly the configured check interval in seconds when that is
  positive (and at most 9223372036, which the bound 1000 of \<^verbatim>\<open>validateConfig\<close>
  ensures), and 10 seconds for every configured interval that is 0 or less.
\<close>

theorem waitNextCheck_duration:
  "(CheckIntervalSeconds cfg \<le> 0 \<longrightarrow> waitNextCheck cfg = 10 * 1000000000)
   \<and> (0 < CheckIntervalSeconds cfg \<and> CheckIntervalSeconds cfg \<le> 9223372036 \<longrightarrow>
        waitNextCheck cfg = CheckIntervalSeconds cfg * 1000000000)
   \<and> (step cfg Sleep s \<noteq> None \<longleftrightarrow> at s = AtWaitNextCheck)
   \<and> (at s = AtWaitNextCheck \<longrightarrow>
        step cfg Sleep s = Some (s\<lparr>slept := slept s @ [waitNextCheck cfg], at := AtAcquire\<rparr>))
   \<and> (run cfg es initial = Some s' \<longrightarrow>
        (\<forall>d \<in> set (slept s'). d = waitNextCheck cfg)
        \<and> length (slept s') + (if at s' = AtWaitNextCheck then 1 else 0) = length (tasks s'))"
proof -
  have a: "CheckIntervalSeconds cfg \<le> 0 \<longrightarrow> waitNextCheck cfg = 10 * 1000000000"
    using waitNextCheck_default by blast
  have b: "0 < CheckIntervalSeconds cfg \<and> CheckIntervalSeconds cfg \<le> 9223372036 \<longrightarrow>
        waitNextCheck cfg = CheckIntervalSeconds cfg * 1000000000"
    using waitNextCheck_configured by blast
  have c: "step cfg Sleep s \<noteq> None \<longleftrightarrow> at s = AtWaitNextCheck" by simp
  have d: "at s = AtWaitNextCheck \<longrightarrow>
        step cfg Sleep s = Some (s\<lparr>slept := slept s @ [waitNextCheck cfg], at := AtAcquire\<rparr>)"
    by simp
  have e: "(\<forall>d \<in> set (slept s'). d = waitNextCheck cfg)
        \<and> length (slept s') + (if at s' = AtWaitNextCheck then 1 else 0) = length (tasks s')"
    if r: "run cfg es initial = Some s'"
  proof -
    have "\<forall>d \<in> set (slept initial). d = waitNextCheck cfg" by (simp add: initial_def)
    from run_slept [OF r this] have "\<forall>d \<in> set (slept s'). d = waitNextCheck cfg" .
    moreover from run_accounted [OF initial_accounted r]
    have "length (slept s') + (if at s' = AtWaitNextCheck then 1 else 0) = length (tasks s')"
      by (simp add: slotsAccounted_def)
    ultimately show ?thesis by blast
  qed
  from a b c d e show ?thesis by blast
qed

text \<open>
  Runs: an interval of 5 gives a sleep of 5 seconds, an interval of 0 one of 10 seconds;
  the sleep is taken while the first task is in its body.
\<close>

theorem waitNextCheck_duration_witness:
  "CheckIntervalSeconds cfgZero \<le> 0 \<and> waitNextCheck cfgZero = 10000000000
   \<and> 0 < CheckIntervalSeconds cfgPlain \<and> CheckIntervalSeconds cfgPlain \<le> 9223372036
   \<and> waitNextCheck cfgPlain = 5000000000
   \<and> at firstCycleRunning = AtWaitNextCheck
   \<and> step cfgPlain Sleep firstCycleRunning
       = Some \<lparr>semaphore = 1, at = AtAcquire, tasks = [InBody], slept = [5000000000]\<rparr>
   \<and> run cfgPlain [Acquire, Spawn] initial = Some firstCycleRunning
   \<and> length (slept firstCycleRunning) + 1 = length (tasks firstCycleRunning)"
proof -
  have z: "CheckIntervalSeconds cfgZero \<le> 0" by (simp add: cfgZero_def)
  have p: "0 < CheckIntervalSeconds cfgPlain \<and> CheckIntervalSeconds cfgPlain \<le> 9223372036"
    by (simp add: cfgPlain_def cfgCut_def)
  have i: "CheckIntervalSeconds cfgPlain = 5" by (simp add: cfgPlain_def cfgCut_def)
  have a: "at firstCycleRunning = AtWaitNextCheck" by (simp add: firstCycleRunning_def)
  have r: "run cfgPlain [Acquire, Spawn] initial = Some firstCycleRunning"
    by (simp add: initial_def firstCycleRunning_def)
  note t0 = waitNextCheck_duration [of cfgZero firstCycleRunning "[]" initial]
  note t1 = waitNextCheck_duration
              [of cfgPlain firstCycleRunning "[Acquire, Spawn]" firstCycleRunning]
  from t0 z have w0: "waitNextCheck cfgZero = 10000000000" by simp
  from t1 p i have w1: "waitNextCheck cfgPlain = 5000000000" by simp
  from t1 a w1 have s: "step cfgPlain Sleep firstCycleRunning
       = Some \<lparr>semaphore = 1, at = AtAcquire, tasks = [InBody], slept = [5000000000]\<rparr>"
    by (simp add: firstCycleRunning_def)
  from t1 r a have l: "length (slept firstCycleRunning) + 1 = length (tasks firstCycleRunning)"
    by simp
  from z w0 p w1 a s r l show ?thesis by blast
qed

end
